theory Spec2Isabelle
  imports Complex_Main "HOL-Library.AList"
begin

section \<open>Python strings\<close>

text \<open>
  A Python \<open>str\<close> is modelled as a \<open>string\<close>; a \<open>char\<close> stands for a code point
  below 256.  \<open>isspace\<close> and \<open>lower_char\<close> are \<open>str.isspace\<close> and \<open>str.lower\<close> on
  that range.
\<close>

definition isspace :: "char \<Rightarrow> bool" where
  "isspace c = (of_char c \<in> {9, 10, 11, 12, 13, 28, 29, 30, 31, 32, 133, 160 :: nat})"

definition strip :: "string \<Rightarrow> string" where
  "strip s = rev (dropWhile isspace (rev (dropWhile isspace s)))"

definition lower_char :: "char \<Rightarrow> char" where
  "lower_char c =
     (let n = of_char c :: nat
      in if (65 \<le> n \<and> n \<le> 90) \<or> (192 \<le> n \<and> n \<le> 222 \<and> n \<noteq> 215)
         then char_of (n + 32) else c)"

definition lower :: "string \<Rightarrow> string" where
  "lower s = map lower_char s"

definition startswith :: "string \<Rightarrow> string \<Rightarrow> bool" where
  "startswith s p = (take (length p) s = p)"

definition endswith :: "string \<Rightarrow> string \<Rightarrow> bool" where
  "endswith s p = (length p \<le> length s \<and> drop (length s - length p) s = p)"

text \<open>\<open>contains s p\<close> is Python's \<open>p in s\<close> on strings.\<close>

fun contains :: "string \<Rightarrow> string \<Rightarrow> bool" where
  "contains [] p = (p = [])"
| "contains (c # cs) p = (startswith (c # cs) p \<or> contains cs p)"

text \<open>\<open>str_nat\<close> is \<open>str\<close> on a non-negative \<open>int\<close>, \<open>str_bool\<close> on a \<open>bool\<close>.\<close>

definition digit_char :: "nat \<Rightarrow> char" where
  "digit_char n = char_of (48 + n)"

fun str_nat :: "nat \<Rightarrow> string" where
  "str_nat n = (if n < 10 then [digit_char n] else str_nat (n div 10) @ [digit_char (n mod 10)])"

declare str_nat.simps [simp del]

definition str_bool :: "bool \<Rightarrow> string" where
  "str_bool b = (if b then ''True'' else ''False'')"

definition quoted :: "string \<Rightarrow> string" where
  "quoted s = [CHR 0x27] @ s @ [CHR 0x27]"


section \<open>Exceptions, logger calls and collaborators\<close>

text \<open>Each exception carries the text that \<open>str(e)\<close> gives.\<close>

datatype exn =
    FileNotFoundError string
  | IsADirectoryError string
  | AttributeError string
  | Raised string

fun str_exn :: "exn \<Rightarrow> string" where
  "str_exn (FileNotFoundError m) = m"
| "str_exn (IsADirectoryError m) = m"
| "str_exn (AttributeError m) = m"
| "str_exn (Raised m) = m"

text \<open>
  One constructor per call on \<open>self.logger\<close> in \<open>prediction_loader.py\<close>; \<open>level\<close> and
  \<open>message\<close> give the method called and the formatted text.
\<close>

datatype event =
    DetectedFormat bool bool
  | BuiltColumnMapping nat
  | ColumnCaseMismatch string string string
  | NoColumnFound string
  | UnexpectedValue string string nat
  | ParseErrors nat
  | ParseError string
  | Loaded nat string

datatype log_level = INFO | WARNING

fun level :: "event \<Rightarrow> log_level" where
  "level (DetectedFormat t v) = INFO"
| "level (BuiltColumnMapping n) = INFO"
| "level (ColumnCaseMismatch category expected_col actual_col) = WARNING"
| "level (NoColumnFound category) = WARNING"
| "level (UnexpectedValue value_str category row_num) = WARNING"
| "level (ParseErrors n) = WARNING"
| "level (ParseError error) = WARNING"
| "level (Loaded n csv_path) = INFO"

fun message :: "event \<Rightarrow> string" where
  "message (DetectedFormat t v) =
     ''Detected format: TikTok='' @ str_bool t @ '', ValueColumns='' @ str_bool v"
| "message (BuiltColumnMapping n) =
     ''Built column mapping for '' @ str_nat n @ '' categories''"
| "message (ColumnCaseMismatch category expected_col actual_col) =
     ''Column case mismatch for '' @ quoted category @ '': expected '' @ quoted expected_col
       @ '', found '' @ quoted actual_col"
| "message (NoColumnFound category) = ''No column found for category '' @ quoted category"
| "message (UnexpectedValue value_str category row_num) =
     ''Unexpected value '' @ quoted value_str @ '' for category '' @ quoted category
       @ '' in row '' @ str_nat row_num
       @ ''. Expected: '' @ quoted []
       @ '', 'absent', 'conflict', 'present', 'dominant', or numeric -1, 0, 1, 2''"
| "message (ParseErrors n) = ''Parse errors: '' @ str_nat n"
| "message (ParseError error) = ''  '' @ error"
| "message (Loaded n csv_path) =
     ''Loaded '' @ str_nat n @ '' predictions from '' @ csv_path"

text \<open>
  The loader imports three names whose modules are not part of the loader's file:
  \<open>ANNOTATION_CATEGORIES\<close> and \<open>GroundTruthLoader._convert_value\<close> from
  \<open>evaluation.ground_truth_loader\<close>, and \<open>normalize_video_id\<close> from
  \<open>evaluation.video_id_utils\<close>.  They are parameters of the model.  Either function may
  raise (\<open>Inl\<close>).  \<open>GroundTruthLoader._convert_value\<close> returns a code or \<open>None\<close>;
  \<open>normalize_video_id\<close> receives a cell (\<open>None\<close> for Python's \<open>None\<close>) and returns a
  string, the empty string standing for every falsy result.
\<close>

record deps =
  ANNOTATION_CATEGORIES :: "string list"
  gt_convert_value :: "string \<Rightarrow> exn + int option"
  normalize_video_id :: "string option \<Rightarrow> exn + string"


section \<open>Data model\<close>

text \<open>
  A row of \<open>csv.DictReader\<close>: a dict whose keys are the header strings (\<open>Some h\<close>) and,
  for a line with more fields than the header, the key \<open>None\<close>.  A cell is a string, or
  \<open>None\<close> where the line has fewer fields than the header.  The loader never reads
  the value under the key \<open>None\<close>, only its presence.
\<close>

type_synonym cell = "string option"
type_synonym row = "string option \<rightharpoonup> cell"

text \<open>Dicts that the loader builds are association lists in insertion order.\<close>

type_synonym column_map = "(string \<times> string) list"
type_synonym annotations = "(string \<times> int) list"
type_synonym logged = "(string \<times> string) set"

record PredictionResult =
  video_id :: string
  predictions :: annotations
  success :: bool
  error_message :: "string option"
  inference_time :: real

record PredictionSet =
  model_name :: string
  predictions :: "PredictionResult list"
  total_count :: nat
  success_count :: nat
  failure_count :: nat
  failed_video_ids :: "string list"

record PredictionLoader =
  model_name :: string
  logged_unexpected_values :: logged

definition COLUMN_MAPPING :: "(string \<times> string) list" where
  "COLUMN_MAPPING =
    [(''1_Value1_Self_Direction_Thought_values'', ''Self_Direction_Thought''),
     (''1_Value1_Self_Direction_Action_values'', ''Self_Direction_Action''),
     (''1_Value1_Stimulation_values'', ''Stimulation''),
     (''1_Value1_Hedonism_values'', ''Hedonism''),
     (''1_Value1_Achievement_values'', ''Achievement''),
     (''1_Value1_Power_Resources_values'', ''Power_Resources''),
     (''1_Value1_Power_dominance_values'', ''Power_Dominance''),
     (''1_Value1_Face_values'', ''Face''),
     (''1_Value1_Security_Personal_values'', ''Security_Personal''),
     (''1_Value1_Security_Social_values'', ''Security_Social''),
     (''1_Value1_Conformity_Rules_values'', ''Conformity_Rules''),
     (''1_Value1_Conformity_Interpersonal_values'', ''Conformity_Interpersonal''),
     (''1_Value1_Tradition_values'', ''Tradition''),
     (''1_Value1_Humility_values'', ''Humility''),
     (''1_Value1_Benevolence_Dependability_values'', ''Benevolence_Dependability''),
     (''1_Value1_Benevolence_Care_values'', ''Benevolence_Care''),
     (''1_Value1_Universalism_Concern_values'', ''Universalism_Concern''),
     (''1_Value1_Universalism_Nature_values'', ''Universalism_Nature''),
     (''1_Value1_Universalism_Tolerance_values'', ''Universalism_Tolerance'')]"


section \<open>Column resolver: \<open>_build_column_mapping\<close>\<close>

text \<open>
  The first loop: every header that starts with \<open>1_Value1_\<close> and ends with \<open>_values\<close> is
  stored under its lower-cased \<open>category_part\<close>, the slice \<open>col[9:-7]\<close>; a later header
  replaces an earlier one with the same key.
\<close>

definition is_value_column :: "string \<Rightarrow> bool" where
  "is_value_column col = (startswith col ''1_Value1_'' \<and> endswith col ''_values'')"

definition category_part :: "string \<Rightarrow> string" where
  "category_part col = drop 9 (take (length col - 7) col)"

fun register_columns :: "string list \<Rightarrow> column_map \<Rightarrow> column_map" where
  "register_columns [] column_mapping = column_mapping"
| "register_columns (col # cols) column_mapping =
     register_columns cols
       (if is_value_column col
        then AList.update (lower (category_part col)) col column_mapping
        else column_mapping)"

text \<open>The body of the second loop, for one category.\<close>

definition report_category :: "string list \<Rightarrow> column_map \<Rightarrow> string \<Rightarrow> event list" where
  "report_category columns column_mapping category =
     (let expected_col = ''1_Value1_'' @ category @ ''_values''
      in if expected_col \<in> set columns then []
         else (case map_of column_mapping (lower category) of
                 Some actual_col \<Rightarrow> [ColumnCaseMismatch category expected_col actual_col]
               | None \<Rightarrow> [NoColumnFound category]))"

definition build_column_mapping :: "deps \<Rightarrow> string list \<Rightarrow> column_map \<times> event list" where
  "build_column_mapping d columns =
     (let column_mapping = register_columns columns []
      in (column_mapping,
          concat (map (report_category columns column_mapping) (ANNOTATION_CATEGORIES d))))"


section \<open>Row parser: \<open>_extract_video_id\<close>, \<open>_convert_value\<close>, \<open>_parse_row\<close>\<close>

text \<open>\<open>v.strip()\<close> on a cell: \<open>None\<close> has no such method.\<close>

definition cell_strip :: "cell \<Rightarrow> exn + string" where
  "cell_strip v =
     (case v of
        None \<Rightarrow> Inl (AttributeError (quoted ''NoneType'' @ '' object has no attribute '' @ quoted ''strip''))
      | Some s \<Rightarrow> Inr (strip s))"

text \<open>\<open>row.get(key, '')\<close>.\<close>

definition row_get :: "row \<Rightarrow> string option \<Rightarrow> cell" where
  "row_get row key = (case row key of None \<Rightarrow> Some [] | Some v \<Rightarrow> v)"

text \<open>\<open>normalize_video_id(filename) or filename\<close>.\<close>

definition extract_video_id :: "deps \<Rightarrow> cell \<Rightarrow> exn + cell" where
  "extract_video_id d filename =
     (case normalize_video_id d filename of
        Inl e \<Rightarrow> Inl e
      | Inr s \<Rightarrow> Inr (if s \<noteq> [] then Some s else filename))"

text \<open>
  Lines 174 to 181 of \<open>_parse_row\<close>: the value of \<open>video_id\<close>, the exception raised
  while computing it, or \<open>None\<close> when the final \<open>else\<close> returns.
\<close>

definition row_video_id :: "deps \<Rightarrow> row \<Rightarrow> (exn + cell) option" where
  "row_video_id d row =
     (case row (Some ''filename'') of
        Some filename \<Rightarrow> Some (extract_video_id d filename)
      | None \<Rightarrow>
         (case row (Some ''1_Link1'') of
            Some link \<Rightarrow>
              Some (case normalize_video_id d link of Inl e \<Rightarrow> Inl e | Inr s \<Rightarrow> Inr (Some s))
          | None \<Rightarrow>
             (case row (Some ''video_id'') of
                Some v \<Rightarrow>
                  Some (case cell_strip v of Inl e \<Rightarrow> Inl e | Inr s \<Rightarrow> Inr (Some s))
              | None \<Rightarrow> None)))"

text \<open>
  \<open>_convert_value\<close>.  It returns the code or the exception, the updated
  \<open>self._logged_unexpected_values\<close> and the logger calls it made.
\<close>

definition convert_value ::
  "deps \<Rightarrow> cell \<Rightarrow> string \<Rightarrow> nat \<Rightarrow> logged \<Rightarrow> (exn + int) \<times> logged \<times> event list" where
  "convert_value d value_str category row_num L =
     (case value_str of
        None \<Rightarrow> (Inr 0, L, [])
      | Some v \<Rightarrow>
         (case gt_convert_value d v of
            Inl e \<Rightarrow> (Inl e, L, [])
          | Inr result \<Rightarrow>
             (if result = None \<and> v \<noteq> [] \<and> (category, v) \<notin> L
              then (Inr 0, insert (category, v) L, [UnexpectedValue v category row_num])
              else (Inr (case result of None \<Rightarrow> 0 | Some i \<Rightarrow> i), L, []))))"

text \<open>The first key of \<open>COLUMN_MAPPING\<close> whose value is the category (lines 193 to 197).\<close>

definition find_csv_col :: "string \<Rightarrow> string option" where
  "find_csv_col category =
     map_option fst (find (\<lambda>(col, cat). cat = category) COLUMN_MAPPING)"

text \<open>\<open>value_str\<close> of one category in the value-columns branch (lines 199 to 206).\<close>

definition value_columns_text :: "row \<Rightarrow> column_map \<Rightarrow> string \<Rightarrow> exn + string" where
  "value_columns_text row column_mapping category =
     (let csv_col = find_csv_col category
      in case (case csv_col of
                 None \<Rightarrow> Inr []
               | Some c \<Rightarrow> if c = [] then Inr [] else cell_strip (row_get row (Some c))) of
           Inl e \<Rightarrow> Inl e
         | Inr value_str \<Rightarrow>
            (if value_str = [] \<and> row csv_col = None
             then (case map_of column_mapping (lower category) of
                     None \<Rightarrow> Inr value_str
                   | Some actual_col \<Rightarrow> cell_strip (row_get row (Some actual_col)))
             else Inr value_str))"

text \<open>\<open>value_str\<close> of one category in the standard branch (line 213).\<close>

definition standard_text :: "row \<Rightarrow> string \<Rightarrow> exn + string" where
  "standard_text row category = cell_strip (row_get row (Some category))"

definition category_text :: "bool \<Rightarrow> row \<Rightarrow> column_map \<Rightarrow> string \<Rightarrow> exn + string" where
  "category_text has_value_columns row column_mapping category =
     (if has_value_columns then value_columns_text row column_mapping category
      else standard_text row category)"

text \<open>
  The loop over \<open>ANNOTATION_CATEGORIES\<close> of either branch.  An exception leaves the
  loop with the set of logged values and the logger calls made so far.
\<close>

fun annotate ::
  "deps \<Rightarrow> (string \<Rightarrow> exn + string) \<Rightarrow> nat \<Rightarrow> string list \<Rightarrow> annotations \<Rightarrow> logged
     \<Rightarrow> (exn + annotations) \<times> logged \<times> event list" where
  "annotate d text row_num [] ann L = (Inr ann, L, [])"
| "annotate d text row_num (category # cs) ann L =
     (case text category of
        Inl e \<Rightarrow> (Inl e, L, [])
      | Inr value_str \<Rightarrow>
         (case convert_value d (Some value_str) category row_num L of
            (Inl e, L1, ev1) \<Rightarrow> (Inl e, L1, ev1)
          | (Inr numeric_value, L1, ev1) \<Rightarrow>
             (case annotate d text row_num cs (AList.update category numeric_value ann) L1 of
                (r, L2, ev2) \<Rightarrow> (r, L2, ev1 @ ev2))))"

definition parse_row ::
  "deps \<Rightarrow> row \<Rightarrow> bool \<Rightarrow> bool \<Rightarrow> column_map \<Rightarrow> nat \<Rightarrow> logged
     \<Rightarrow> (exn + PredictionResult option) \<times> logged \<times> event list" where
  "parse_row d row is_tiktok_format has_value_columns column_mapping row_num L =
     (case row_video_id d row of
        None \<Rightarrow> (Inr None, L, [])
      | Some (Inl e) \<Rightarrow> (Inl e, L, [])
      | Some (Inr None) \<Rightarrow> (Inr None, L, [])
      | Some (Inr (Some vid)) \<Rightarrow>
         (if vid = [] then (Inr None, L, [])
          else (case annotate d (category_text has_value_columns row column_mapping) row_num
                       (ANNOTATION_CATEGORIES d) [] L of
                  (Inl e, L', ev) \<Rightarrow> (Inl e, L', ev)
                | (Inr ann, L', ev) \<Rightarrow>
                   (Inr (Some \<lparr>video_id = vid, PredictionResult.predictions = ann,
                               success = True, error_message = None, inference_time = 0\<rparr>),
                    L', ev))))"


section \<open>Load orchestrator: \<open>load\<close>\<close>

text \<open>
  What a path names: nothing (the path is not in the map), a directory, or a text file
  that \<open>csv.DictReader\<close> reads as \<open>fieldnames\<close> (\<open>None\<close> for an empty file) and rows.
\<close>

datatype fsnode = Directory | CsvFile "string list option" "row list"

type_synonym filesystem = "string \<rightharpoonup> fsnode"

text \<open>Format detection on the header (lines 81 to 85).\<close>

definition header_columns :: "string list option \<Rightarrow> string list" where
  "header_columns fieldnames = (case fieldnames of None \<Rightarrow> [] | Some names \<Rightarrow> names)"

definition detect_tiktok_format :: "string list \<Rightarrow> bool" where
  "detect_tiktok_format columns = (''filename'' \<in> set columns \<or> ''1_Link1'' \<in> set columns)"

definition detect_value_columns :: "string list \<Rightarrow> bool" where
  "detect_value_columns columns = list_ex (\<lambda>col. contains col ''_values'') columns"

text \<open>The entry of \<open>parse_errors\<close> for an exception (line 99).\<close>

definition diagnostic :: "nat \<Rightarrow> exn \<Rightarrow> string" where
  "diagnostic row_num e = ''Row '' @ str_nat row_num @ '': '' @ str_exn e"

text \<open>
  The \<open>for\<close> loop of lines 93 to 99, from row number \<open>row_num\<close> on: the lists
  \<open>predictions\<close> and \<open>parse_errors\<close>, the logged set and the logger calls.
\<close>

fun parse_rows ::
  "deps \<Rightarrow> bool \<Rightarrow> bool \<Rightarrow> column_map \<Rightarrow> nat \<Rightarrow> row list
     \<Rightarrow> PredictionResult list \<Rightarrow> string list \<Rightarrow> logged
     \<Rightarrow> PredictionResult list \<times> string list \<times> logged \<times> event list" where
  "parse_rows d is_tiktok_format has_value_columns column_mapping row_num []
       preds parse_errors L = (preds, parse_errors, L, [])"
| "parse_rows d is_tiktok_format has_value_columns column_mapping row_num (row # rows)
       preds parse_errors L =
     (case parse_row d row is_tiktok_format has_value_columns column_mapping row_num L of
        (Inr pred, L1, ev1) \<Rightarrow>
          (case parse_rows d is_tiktok_format has_value_columns column_mapping (Suc row_num) rows
                  (case pred of Some p \<Rightarrow> preds @ [p] | None \<Rightarrow> preds) parse_errors L1 of
             (ps, es, L2, ev2) \<Rightarrow> (ps, es, L2, ev1 @ ev2))
      | (Inl e, L1, ev1) \<Rightarrow>
          (case parse_rows d is_tiktok_format has_value_columns column_mapping (Suc row_num) rows
                  preds (parse_errors @ [diagnostic row_num e]) L1 of
             (ps, es, L2, ev2) \<Rightarrow> (ps, es, L2, ev1 @ ev2)))"

text \<open>Lines 101 to 104: the count and the first five diagnostics.\<close>

definition report_parse_errors :: "string list \<Rightarrow> event list" where
  "report_parse_errors parse_errors =
     (if parse_errors = [] then []
      else ParseErrors (length parse_errors) # map ParseError (take 5 parse_errors))"

definition load ::
  "deps \<Rightarrow> PredictionLoader \<Rightarrow> filesystem \<Rightarrow> string
     \<Rightarrow> (exn + PredictionSet) \<times> PredictionLoader \<times> event list" where
  "load d self fs csv_path =
     (case fs csv_path of
        None \<Rightarrow> (Inl (FileNotFoundError (''Predictions file not found: '' @ csv_path)), self, [])
      | Some Directory \<Rightarrow>
          (Inl (IsADirectoryError (''[Errno 21] Is a directory: '' @ quoted csv_path)),
           self\<lparr>logged_unexpected_values := {}\<rparr>, [])
      | Some (CsvFile fieldnames rows) \<Rightarrow>
          (let columns = header_columns fieldnames;
               is_tiktok_format = detect_tiktok_format columns;
               has_value_columns = detect_value_columns columns
           in case build_column_mapping d columns of
                (column_mapping, ev_columns) \<Rightarrow>
                  (case parse_rows d is_tiktok_format has_value_columns column_mapping 2 rows
                          [] [] {} of
                     (preds, parse_errors, L, ev_rows) \<Rightarrow>
                       (Inr \<lparr>PredictionSet.model_name = PredictionLoader.model_name self,
                             PredictionSet.predictions = preds,
                             total_count = length preds,
                             success_count = length preds,
                             failure_count = 0,
                             failed_video_ids = []\<rparr>,
                        self\<lparr>logged_unexpected_values := L\<rparr>,
                        [DetectedFormat is_tiktok_format has_value_columns] @ ev_columns
                          @ [BuiltColumnMapping (length column_mapping)] @ ev_rows
                          @ report_parse_errors parse_errors
                          @ [Loaded (length preds) csv_path]))))"


section \<open>Reading the log\<close>

text \<open>
  The pairs (category, value) of the \<open>Unexpected value\<close> warnings of a log, in the order
  of the calls, and the texts of its per-row diagnostics.
\<close>

fun unexpected_keys :: "event list \<Rightarrow> (string \<times> string) list" where
  "unexpected_keys [] = []"
| "unexpected_keys (UnexpectedValue value_str category row_num # ev) =
     (category, value_str) # unexpected_keys ev"
| "unexpected_keys (e # ev) = unexpected_keys ev"

fun surfaced_diagnostics :: "event list \<Rightarrow> string list" where
  "surfaced_diagnostics [] = []"
| "surfaced_diagnostics (ParseError error # ev) = error # surfaced_diagnostics ev"
| "surfaced_diagnostics (e # ev) = surfaced_diagnostics ev"

text \<open>
  \<open>log_ok L L' ev\<close>: the calls \<open>ev\<close> warn about pairs that are new with respect to
  \<open>L\<close>, each once and none with an empty value, and \<open>L'\<close> is \<open>L\<close> with those pairs.
\<close>

definition log_ok :: "logged \<Rightarrow> logged \<Rightarrow> event list \<Rightarrow> bool" where
  "log_ok L L' ev =
     (L' = L \<union> set (unexpected_keys ev) \<and> distinct (unexpected_keys ev)
      \<and> set (unexpected_keys ev) \<inter> L = {} \<and> [] \<notin> snd ` set (unexpected_keys ev))"


section \<open>What the rows of a file give\<close>

text \<open>
  \<open>row_outcome\<close> is what \<open>_parse_row\<close> returns or raises on a row; it depends neither on
  the linked-format flag, nor on the row number, nor on the values logged so far
  (\<open>parse_row_outcome\<close> below).  \<open>collected\<close> lists the records of the rows that gave
  one, \<open>diagnostics\<close> the \<open>parse_errors\<close> entries of the rows that raised, numbered from
  \<open>row_num\<close>.
\<close>

definition row_outcome :: "deps \<Rightarrow> bool \<Rightarrow> column_map \<Rightarrow> row \<Rightarrow> exn + PredictionResult option" where
  "row_outcome d has_value_columns column_mapping row =
     fst (parse_row d row False has_value_columns column_mapping 0 {})"

definition collected :: "deps \<Rightarrow> bool \<Rightarrow> column_map \<Rightarrow> row list \<Rightarrow> PredictionResult list" where
  "collected d has_value_columns column_mapping rows =
     concat (map (\<lambda>row. case row_outcome d has_value_columns column_mapping row of
                          Inr (Some p) \<Rightarrow> [p] | Inr None \<Rightarrow> [] | Inl e \<Rightarrow> []) rows)"

definition diagnostics :: "deps \<Rightarrow> bool \<Rightarrow> column_map \<Rightarrow> nat \<Rightarrow> row list \<Rightarrow> string list" where
  "diagnostics d has_value_columns column_mapping row_num rows =
     concat (map (\<lambda>(k, row). case row_outcome d has_value_columns column_mapping row of
                               Inl e \<Rightarrow> [diagnostic k e] | Inr p \<Rightarrow> [])
                 (enumerate row_num rows))"


section \<open>Stand-in collaborators and sample files\<close>

text \<open>
  A normalizer, a resolver and a category list to run the loader on: the theorems below
  hold for every collaborator, these three instantiate them.
\<close>

definition sample_normalizer :: "string \<Rightarrow> exn + int option" where
  "sample_normalizer v =
     Inr (if v = [] then Some 0 else if v = ''present'' then Some 1
          else if v = ''dominant'' then Some 2 else None)"

definition sample_resolver :: "cell \<Rightarrow> exn + string" where
  "sample_resolver c = (case c of None \<Rightarrow> Inr [] | Some s \<Rightarrow> Inr (strip s))"

definition sample_deps :: deps where
  "sample_deps =
     \<lparr>ANNOTATION_CATEGORIES = [''Hedonism'', ''Face'', ''Power_Dominance''],
      gt_convert_value = sample_normalizer,
      normalize_video_id = sample_resolver\<rparr>"

definition sample_self :: PredictionLoader where
  "sample_self = \<lparr>PredictionLoader.model_name = ''model'', logged_unexpected_values = {}\<rparr>"

text \<open>
  \<open>preds.csv\<close>: header \<open>video_id,Hedonism,Face\<close>; the second data line has two fields
  only.  \<open>full.csv\<close>: the same header, every line complete.  \<open>out\<close> is a directory.
\<close>

definition sample_rows :: "row list" where
  "sample_rows =
     [[Some ''video_id'' \<mapsto> Some ''v1'', Some ''Hedonism'' \<mapsto> Some ''present'',
       Some ''Face'' \<mapsto> Some []],
      [Some ''video_id'' \<mapsto> Some ''v2'', Some ''Hedonism'' \<mapsto> Some ''bogus'',
       Some ''Face'' \<mapsto> None],
      [Some ''video_id'' \<mapsto> Some ''v3'', Some ''Hedonism'' \<mapsto> Some ''bogus'',
       Some ''Face'' \<mapsto> Some '' dominant '']]"

definition full_rows :: "row list" where
  "full_rows =
     [[Some ''video_id'' \<mapsto> Some ''v1'', Some ''Hedonism'' \<mapsto> Some ''present'',
       Some ''Face'' \<mapsto> Some []],
      [Some ''video_id'' \<mapsto> Some ''v2'', Some ''Hedonism'' \<mapsto> Some ''bogus'',
       Some ''Face'' \<mapsto> Some ''dominant'']]"

definition sample_fs :: filesystem where
  "sample_fs =
     [''preds.csv'' \<mapsto> CsvFile (Some [''video_id'', ''Hedonism'', ''Face'']) sample_rows,
      ''full.csv'' \<mapsto> CsvFile (Some [''video_id'', ''Hedonism'', ''Face'']) full_rows,
      ''out'' \<mapsto> Directory]"

text \<open>Rows for the identifier fields: each field alone, all three, none, a blank one.\<close>

definition row_with_filename :: row where
  "row_with_filename =
     [Some ''filename'' \<mapsto> Some ''@amy_video_7.mp4'', Some ''1_Link1'' \<mapsto> Some ''link'',
      Some ''video_id'' \<mapsto> Some ''vid'']"

definition row_with_link :: row where
  "row_with_link = [Some ''1_Link1'' \<mapsto> Some '' link '', Some ''video_id'' \<mapsto> Some ''vid'']"

definition row_with_video_id :: row where
  "row_with_video_id = [Some ''video_id'' \<mapsto> Some '' vid '', Some ''Face'' \<mapsto> Some ''present'']"

definition row_without_id :: row where
  "row_without_id = [Some ''Face'' \<mapsto> Some ''present'']"

definition row_blank_id :: row where
  "row_blank_id = [Some ''video_id'' \<mapsto> Some ''  '', Some ''Face'' \<mapsto> Some ''present'']"

text \<open>A complete row with a value that the normalizer does not recognise.\<close>

definition bogus_row :: row where
  "bogus_row =
     [Some ''video_id'' \<mapsto> Some ''v3'', Some ''Hedonism'' \<mapsto> Some ''bogus'',
      Some ''Face'' \<mapsto> Some '' dominant '']"

text \<open>The row \<open>row_with_video_id\<close> with white space around other cells.\<close>

definition padded_row :: row where
  "padded_row = [Some ''video_id'' \<mapsto> Some ''vid'', Some ''Face'' \<mapsto> Some '' present  '']"

text \<open>A header with two case variants, and a row of that file.\<close>

definition variant_columns :: "string list" where
  "variant_columns =
     [''filename'', ''1_Value1_Power_dominance_values'', ''1_Value1_hedonism_values'']"

definition variant_row :: row where
  "variant_row =
     [Some ''filename'' \<mapsto> Some ''amy_7'',
      Some ''1_Value1_Power_dominance_values'' \<mapsto> Some ''dominant'',
      Some ''1_Value1_hedonism_values'' \<mapsto> Some '' present '']"


section \<open>The linked-format flag\<close>

lemma parse_row_flag: "parse_row d row t hv cm n L = parse_row d row t' hv cm n L"
  by (simp add: parse_row_def)

lemma parse_rows_flag:
  "parse_rows d t hv cm n rows ps es L = parse_rows d t' hv cm n rows ps es L"
proof (induction rows arbitrary: n ps es L)
  case Nil
  show ?case by simp
next
  case (Cons row rows)
  have eq: "parse_row d row t hv cm n L = parse_row d row t' hv cm n L"
    by (rule parse_row_flag)
  show ?case
    by (simp add: eq Cons.IH [of "Suc n"] split: prod.splits sum.splits)
qed

lemma load_csv:
  assumes "fs csv_path = Some (CsvFile fieldnames rows)"
    and "parse_rows d flag (detect_value_columns (header_columns fieldnames))
           (fst (build_column_mapping d (header_columns fieldnames))) 2 rows [] [] {}
         = (preds, parse_errors, L, ev_rows)"
  shows "load d self fs csv_path =
     (Inr \<lparr>PredictionSet.model_name = PredictionLoader.model_name self,
           PredictionSet.predictions = preds,
           total_count = length preds, success_count = length preds,
           failure_count = 0, failed_video_ids = []\<rparr>,
      self\<lparr>logged_unexpected_values := L\<rparr>,
      [DetectedFormat (detect_tiktok_format (header_columns fieldnames))
                      (detect_value_columns (header_columns fieldnames))]
        @ snd (build_column_mapping d (header_columns fieldnames))
        @ [BuiltColumnMapping (length (fst (build_column_mapping d (header_columns fieldnames))))]
        @ ev_rows @ report_parse_errors parse_errors @ [Loaded (length preds) csv_path])"
proof -
  have "parse_rows d (detect_tiktok_format (header_columns fieldnames))
           (detect_value_columns (header_columns fieldnames))
           (fst (build_column_mapping d (header_columns fieldnames))) 2 rows [] [] {}
         = (preds, parse_errors, L, ev_rows)"
    using assms(2) parse_rows_flag by metis
  then show ?thesis
    using assms(1) by (auto simp: load_def Let_def split: prod.splits)
qed

text \<open>
  Claim C10.  \<open>_parse_row\<close> returns the same result, leaves the same set of logged
  values and makes the same logger calls whether \<open>is_tiktok_format\<close> is true or false,
  and so does the whole loop over the rows.  The records of the Prediction Set that
  \<open>load\<close> returns for a file are those of the loop run with either value of the flag:
  the flag reaches the caller through the \<open>Detected format\<close> log line only.
\<close>

theorem linked_flag_unused:
  "parse_row d row True hv cm n L = parse_row d row False hv cm n L
   \<and> parse_rows d True hv cm n rows ps es L = parse_rows d False hv cm n rows ps es L
   \<and> (fs csv_path = Some (CsvFile fieldnames rows) \<longrightarrow>
        map_sum id PredictionSet.predictions (fst (load d self fs csv_path))
        = Inr (fst (parse_rows d flag (detect_value_columns (header_columns fieldnames))
                      (fst (build_column_mapping d (header_columns fieldnames)))
                      2 rows [] [] {})))"
proof (intro conjI impI)
  show "parse_row d row True hv cm n L = parse_row d row False hv cm n L"
    by (rule parse_row_flag)
  show "parse_rows d True hv cm n rows ps es L = parse_rows d False hv cm n rows ps es L"
    by (rule parse_rows_flag)
next
  assume f: "fs csv_path = Some (CsvFile fieldnames rows)"
  obtain preds parse_errors L ev_rows where
    r: "parse_rows d flag (detect_value_columns (header_columns fieldnames))
           (fst (build_column_mapping d (header_columns fieldnames))) 2 rows [] [] {}
         = (preds, parse_errors, L, ev_rows)"
    by (cases "parse_rows d flag (detect_value_columns (header_columns fieldnames))
           (fst (build_column_mapping d (header_columns fieldnames))) 2 rows [] [] {}") auto
  show "map_sum id PredictionSet.predictions (fst (load d self fs csv_path))
        = Inr (fst (parse_rows d flag (detect_value_columns (header_columns fieldnames))
                      (fst (build_column_mapping d (header_columns fieldnames)))
                      2 rows [] [] {}))"
    by (simp add: load_csv [where fs = fs and csv_path = csv_path, OF f r] r)
qed

theorem linked_flag_unused_witness:
  "map (\<lambda>p. (video_id p, PredictionResult.predictions p))
     (projr (map_sum id PredictionSet.predictions
        (fst (load sample_deps sample_self sample_fs ''preds.csv''))))
   = [(''v1'', [(''Hedonism'', 1), (''Face'', 0), (''Power_Dominance'', 0)]),
      (''v3'', [(''Hedonism'', 0), (''Face'', 2), (''Power_Dominance'', 0)])]"
proof -
  have f: "sample_fs ''preds.csv'' = Some (CsvFile (Some [''video_id'', ''Hedonism'', ''Face'']) sample_rows)"
    by (simp add: sample_fs_def)
  have r: "map (\<lambda>p. (video_id p, PredictionResult.predictions p))
     (fst (parse_rows sample_deps True
             (detect_value_columns (header_columns (Some [''video_id'', ''Hedonism'', ''Face''])))
             (fst (build_column_mapping sample_deps
                     (header_columns (Some [''video_id'', ''Hedonism'', ''Face'']))))
             2 sample_rows [] [] {}))
   = [(''v1'', [(''Hedonism'', 1), (''Face'', 0), (''Power_Dominance'', 0)]),
      (''v3'', [(''Hedonism'', 0), (''Face'', 2), (''Power_Dominance'', 0)])]"
    by code_simp
  from linked_flag_unused [where d = sample_deps and fs = sample_fs
         and csv_path = "''preds.csv''" and fieldnames = "Some [''video_id'', ''Hedonism'', ''Face'']"
         and rows = sample_rows and self = sample_self and flag = True] f
  have "map_sum id PredictionSet.predictions
          (fst (load sample_deps sample_self sample_fs ''preds.csv''))
        = Inr (fst (parse_rows sample_deps True
             (detect_value_columns (header_columns (Some [''video_id'', ''Hedonism'', ''Face''])))
             (fst (build_column_mapping sample_deps
                     (header_columns (Some [''video_id'', ''Hedonism'', ''Face'']))))
             2 sample_rows [] [] {}))"
    by blast
  then show ?thesis using r by simp
qed


section \<open>Counters of the Prediction Set\<close>

text \<open>
  Claim C4.  Whenever \<open>load\<close> returns a Prediction Set, \<open>total_count\<close> and
  \<open>success_count\<close> are the number of records in it, \<open>failure_count\<close> is 0 and
  \<open>failed_video_ids\<close> is empty.  The witness is a file one of whose rows raised and was
  dropped.
\<close>

theorem load_counts:
  assumes "fst (load d self fs csv_path) = Inr ps"
  shows "total_count ps = length (PredictionSet.predictions ps)
       \<and> success_count ps = length (PredictionSet.predictions ps)
       \<and> failure_count ps = 0 \<and> failed_video_ids ps = []"
  using assms
  by (auto simp: load_def Let_def split: option.splits fsnode.splits prod.splits)

theorem load_counts_witness:
  "fst (load sample_deps sample_self sample_fs ''preds.csv'')
     = Inr (projr (fst (load sample_deps sample_self sample_fs ''preds.csv'')))
   \<and> total_count (projr (fst (load sample_deps sample_self sample_fs ''preds.csv''))) = 2
   \<and> failure_count (projr (fst (load sample_deps sample_self sample_fs ''preds.csv''))) = 0
   \<and> surfaced_diagnostics (snd (snd (load sample_deps sample_self sample_fs ''preds.csv'')))
        = [diagnostic 3 (AttributeError
             (quoted ''NoneType'' @ '' object has no attribute '' @ quoted ''strip''))]"
proof -
  have h: "fst (load sample_deps sample_self sample_fs ''preds.csv'')
     = Inr (projr (fst (load sample_deps sample_self sample_fs ''preds.csv'')))"
    by code_simp
  have n: "length (PredictionSet.predictions
             (projr (fst (load sample_deps sample_self sample_fs ''preds.csv'')))) = 2"
    by code_simp
  have g: "surfaced_diagnostics (snd (snd (load sample_deps sample_self sample_fs ''preds.csv'')))
        = [diagnostic 3 (AttributeError
             (quoted ''NoneType'' @ '' object has no attribute '' @ quoted ''strip''))]"
    by code_simp
  from load_counts [OF h] n g h show ?thesis by simp
qed


section \<open>Errors that leave \<open>load\<close>\<close>

text \<open>
  Claim C8, as amended.  For a path that names nothing, \<open>load\<close> raises
  \<open>FileNotFoundError\<close> with the loader untouched and no logger call: nothing was
  opened and no row was read.  It is not the only exception that leaves \<open>load\<close>:
  \<open>open\<close> is called outside any \<open>try\<close>, so a path that exists and cannot be opened
  as a file (a directory) raises too.  Once the file has been read, \<open>load\<close> returns a
  Prediction Set whatever its rows do.
\<close>

theorem load_propagated_errors:
  "(fs csv_path = None \<longrightarrow>
      load d self fs csv_path
        = (Inl (FileNotFoundError (''Predictions file not found: '' @ csv_path)), self, []))
   \<and> (fst (load d self fs csv_path) = Inl e \<longrightarrow>
        (fs csv_path = None
           \<and> e = FileNotFoundError (''Predictions file not found: '' @ csv_path))
        \<or> (fs csv_path = Some Directory
           \<and> e = IsADirectoryError (''[Errno 21] Is a directory: '' @ quoted csv_path)))
   \<and> (fs csv_path = Some (CsvFile fieldnames rows) \<longrightarrow>
        (\<exists>ps. fst (load d self fs csv_path) = Inr ps))"
  by (auto simp: load_def Let_def split: option.splits fsnode.splits prod.splits)

text \<open>The claim as stated fails on a directory: the path exists and \<open>load\<close> raises.\<close>

theorem load_directory_counterexample:
  "sample_fs ''out'' = Some Directory
   \<and> fst (load sample_deps sample_self sample_fs ''out'')
       = Inl (IsADirectoryError (''[Errno 21] Is a directory: '' @ quoted ''out''))"
  by (simp add: load_def sample_fs_def)

theorem load_propagated_errors_witness:
  "load sample_deps sample_self sample_fs ''nope''
     = (Inl (FileNotFoundError (''Predictions file not found: '' @ ''nope'')), sample_self, [])
   \<and> (sample_fs ''out'' = None
          \<and> IsADirectoryError (''[Errno 21] Is a directory: '' @ quoted ''out'')
              = FileNotFoundError (''Predictions file not found: '' @ ''out'')
        \<or> sample_fs ''out'' = Some Directory
          \<and> IsADirectoryError (''[Errno 21] Is a directory: '' @ quoted ''out'')
              = IsADirectoryError (''[Errno 21] Is a directory: '' @ quoted ''out''))
   \<and> (\<exists>ps. fst (load sample_deps sample_self sample_fs ''preds.csv'') = Inr ps)"
proof (intro conjI)
  have a: "sample_fs ''nope'' = None"
    by (simp add: sample_fs_def)
  show "load sample_deps sample_self sample_fs ''nope''
     = (Inl (FileNotFoundError (''Predictions file not found: '' @ ''nope'')), sample_self, [])"
    by (rule load_propagated_errors [where fs = sample_fs and csv_path = "''nope''", THEN conjunct1, THEN mp, OF a])
next
  have b: "fst (load sample_deps sample_self sample_fs ''out'')
             = Inl (IsADirectoryError (''[Errno 21] Is a directory: '' @ quoted ''out''))"
    by (simp add: load_def sample_fs_def)
  show "sample_fs ''out'' = None
          \<and> IsADirectoryError (''[Errno 21] Is a directory: '' @ quoted ''out'')
              = FileNotFoundError (''Predictions file not found: '' @ ''out'')
        \<or> sample_fs ''out'' = Some Directory
          \<and> IsADirectoryError (''[Errno 21] Is a directory: '' @ quoted ''out'')
              = IsADirectoryError (''[Errno 21] Is a directory: '' @ quoted ''out'')"
    by (rule load_propagated_errors [where fs = sample_fs and csv_path = "''out''", THEN conjunct2, THEN conjunct1, THEN mp, OF b])
next
  have c: "sample_fs ''preds.csv''
             = Some (CsvFile (Some [''video_id'', ''Hedonism'', ''Face'']) sample_rows)"
    by (simp add: sample_fs_def)
  show "\<exists>ps. fst (load sample_deps sample_self sample_fs ''preds.csv'') = Inr ps"
    by (rule load_propagated_errors [where fs = sample_fs and csv_path = "''preds.csv''", THEN conjunct2, THEN conjunct2, THEN mp, OF c])
qed


section \<open>The identifier of a row\<close>

text \<open>
  Claim C2.  The identifier of a row is taken from \<open>filename\<close> through
  \<open>_extract_video_id\<close> when the row has that key, else from \<open>1_Link1\<close> through
  \<open>normalize_video_id\<close>, else from \<open>video_id\<close>, trimmed.  A row with none of the
  three keys gives no record, and so does a row whose identifier is empty (or
  \<open>None\<close>); in both cases the set of logged values is unchanged and the logger is not
  called.  Otherwise a record that is returned carries that identifier.
\<close>

theorem identifier_priority:
  "(row (Some ''filename'') = Some f \<longrightarrow>
      row_video_id d row = Some (extract_video_id d f))
   \<and> (row (Some ''filename'') = None \<and> row (Some ''1_Link1'') = Some l \<longrightarrow>
        row_video_id d row
          = Some (case normalize_video_id d l of Inl e \<Rightarrow> Inl e | Inr s \<Rightarrow> Inr (Some s)))
   \<and> (row (Some ''filename'') = None \<and> row (Some ''1_Link1'') = None
        \<and> row (Some ''video_id'') = Some (Some v) \<longrightarrow>
        row_video_id d row = Some (Inr (Some (strip v))))
   \<and> (row (Some ''filename'') = None \<and> row (Some ''1_Link1'') = None
        \<and> row (Some ''video_id'') = None \<longrightarrow>
        parse_row d row t hv cm n L = (Inr None, L, []))
   \<and> (row_video_id d row = Some (Inr None) \<or> row_video_id d row = Some (Inr (Some [])) \<longrightarrow>
        parse_row d row t hv cm n L = (Inr None, L, []))
   \<and> (row_video_id d row = Some (Inr (Some vid)) \<and> vid \<noteq> []
        \<and> fst (parse_row d row t hv cm n L) = Inr p \<longrightarrow>
        map_option video_id p = Some vid)"
proof (intro conjI impI)
  assume "row (Some ''filename'') = Some f"
  then show "row_video_id d row = Some (extract_video_id d f)"
    by (simp add: row_video_id_def)
next
  assume "row (Some ''filename'') = None \<and> row (Some ''1_Link1'') = Some l"
  then show "row_video_id d row
          = Some (case normalize_video_id d l of Inl e \<Rightarrow> Inl e | Inr s \<Rightarrow> Inr (Some s))"
    by (simp add: row_video_id_def)
next
  assume "row (Some ''filename'') = None \<and> row (Some ''1_Link1'') = None
        \<and> row (Some ''video_id'') = Some (Some v)"
  then show "row_video_id d row = Some (Inr (Some (strip v)))"
    by (simp add: row_video_id_def cell_strip_def)
next
  assume "row (Some ''filename'') = None \<and> row (Some ''1_Link1'') = None
        \<and> row (Some ''video_id'') = None"
  then have "row_video_id d row = None"
    by (simp add: row_video_id_def)
  then show "parse_row d row t hv cm n L = (Inr None, L, [])"
    by (simp add: parse_row_def)
next
  assume "row_video_id d row = Some (Inr None) \<or> row_video_id d row = Some (Inr (Some []))"
  then show "parse_row d row t hv cm n L = (Inr None, L, [])"
    by (auto simp: parse_row_def)
next
  assume "row_video_id d row = Some (Inr (Some vid)) \<and> vid \<noteq> []
        \<and> fst (parse_row d row t hv cm n L) = Inr p"
  then show "map_option video_id p = Some vid"
    by (auto simp: parse_row_def split: prod.splits sum.splits)
qed



theorem identifier_priority_witness:
  "row_video_id sample_deps row_with_filename
     = Some (extract_video_id sample_deps (Some ''@amy_video_7.mp4''))
   \<and> extract_video_id sample_deps (Some ''@amy_video_7.mp4'') = Inr (Some ''@amy_video_7.mp4'')
   \<and> row_video_id sample_deps row_with_link
     = Some (case normalize_video_id sample_deps (Some '' link '') of
               Inl e \<Rightarrow> Inl e | Inr s \<Rightarrow> Inr (Some s))
   \<and> normalize_video_id sample_deps (Some '' link '') = Inr ''link''
   \<and> row_video_id sample_deps row_with_video_id = Some (Inr (Some (strip '' vid '')))
   \<and> strip '' vid '' = ''vid''
   \<and> parse_row sample_deps row_without_id False False [] 2 {} = (Inr None, {}, [])
   \<and> parse_row sample_deps row_blank_id False False [] 2 {} = (Inr None, {}, [])
   \<and> map_option video_id
         (projr (fst (parse_row sample_deps row_with_video_id False False [] 2 {})))
        = Some ''vid''"
proof (intro conjI)
  have a: "row_with_filename (Some ''filename'') = Some (Some ''@amy_video_7.mp4'')"
    by (simp add: row_with_filename_def)
  show "row_video_id sample_deps row_with_filename
     = Some (extract_video_id sample_deps (Some ''@amy_video_7.mp4''))"
    by (rule identifier_priority [where row = row_with_filename, THEN conjunct1, THEN mp, OF a])
  show "extract_video_id sample_deps (Some ''@amy_video_7.mp4'') = Inr (Some ''@amy_video_7.mp4'')"
    by code_simp
next
  have b: "row_with_link (Some ''filename'') = None
           \<and> row_with_link (Some ''1_Link1'') = Some (Some '' link '')"
    by (simp add: row_with_link_def)
  show "row_video_id sample_deps row_with_link
     = Some (case normalize_video_id sample_deps (Some '' link '') of
               Inl e \<Rightarrow> Inl e | Inr s \<Rightarrow> Inr (Some s))"
    by (rule identifier_priority [where row = row_with_link, THEN conjunct2, THEN conjunct1, THEN mp, OF b])
  show "normalize_video_id sample_deps (Some '' link '') = Inr ''link''"
    by code_simp
next
  have c: "row_with_video_id (Some ''filename'') = None
           \<and> row_with_video_id (Some ''1_Link1'') = None
           \<and> row_with_video_id (Some ''video_id'') = Some (Some '' vid '')"
    by (simp add: row_with_video_id_def)
  show C: "row_video_id sample_deps row_with_video_id = Some (Inr (Some (strip '' vid '')))"
    by (rule identifier_priority [where row = row_with_video_id, THEN conjunct2, THEN conjunct2, THEN conjunct1, THEN mp, OF c])
  show s: "strip '' vid '' = ''vid''"
    by code_simp
  have h: "fst (parse_row sample_deps row_with_video_id False False [] 2 {})
             = Inr (projr (fst (parse_row sample_deps row_with_video_id False False [] 2 {})))"
    by code_simp
  have k: "row_video_id sample_deps row_with_video_id = Some (Inr (Some ''vid'')) \<and> ''vid'' \<noteq> []
        \<and> fst (parse_row sample_deps row_with_video_id False False [] 2 {})
            = Inr (projr (fst (parse_row sample_deps row_with_video_id False False [] 2 {})))"
    using C s h by simp
  show "map_option video_id
             (projr (fst (parse_row sample_deps row_with_video_id False False [] 2 {})))
           = Some ''vid''"
    by (rule identifier_priority [where row = row_with_video_id, THEN conjunct2, THEN conjunct2,
               THEN conjunct2, THEN conjunct2, THEN conjunct2, THEN mp, OF k])
next
  have e: "row_without_id (Some ''filename'') = None
           \<and> row_without_id (Some ''1_Link1'') = None
           \<and> row_without_id (Some ''video_id'') = None"
    by (simp add: row_without_id_def)
  show "parse_row sample_deps row_without_id False False [] 2 {} = (Inr None, {}, [])"
    by (rule identifier_priority [where row = row_without_id, THEN conjunct2, THEN conjunct2,
               THEN conjunct2, THEN conjunct1, THEN mp, OF e])
next
  have g: "row_video_id sample_deps row_blank_id = Some (Inr (Some []))"
    by code_simp
  then have g': "row_video_id sample_deps row_blank_id = Some (Inr None)
                 \<or> row_video_id sample_deps row_blank_id = Some (Inr (Some []))"
    by (rule disjI2)
  show "parse_row sample_deps row_blank_id False False [] 2 {} = (Inr None, {}, [])"
    by (rule identifier_priority [where row = row_blank_id, THEN conjunct2, THEN conjunct2,
               THEN conjunct2, THEN conjunct2, THEN conjunct1, THEN mp, OF g'])
qed


section \<open>The loop over the categories\<close>

lemma unexpected_keys_append:
  "unexpected_keys (a @ b) = unexpected_keys a @ unexpected_keys b"
  by (induction a rule: unexpected_keys.induct) simp_all

lemma convert_value_result:
  "fst (convert_value d (Some v) c n L)
     = (case gt_convert_value d v of
          Inl e \<Rightarrow> Inl e
        | Inr r \<Rightarrow> Inr (case r of None \<Rightarrow> 0 | Some i \<Rightarrow> i))"
  by (simp add: convert_value_def split: sum.splits option.splits)

lemma log_ok_Nil: "log_ok L L []"
  by (simp add: log_ok_def)

lemma log_ok_append:
  assumes "log_ok L L1 ev1" and "log_ok L1 L2 ev2"
  shows "log_ok L L2 (ev1 @ ev2)"
  using assms by (auto simp: log_ok_def unexpected_keys_append)

lemma convert_value_log:
  assumes "convert_value d vs c n L = (r, L', ev)"
  shows "log_ok L L' ev"
  using assms
  by (auto simp: convert_value_def log_ok_def split: option.splits sum.splits if_splits)

lemma annotate_log:
  assumes "annotate d text n cs ann L = (r, L', ev)"
  shows "log_ok L L' ev"
  using assms
proof (induction cs arbitrary: ann L r L' ev)
  case Nil
  then show ?case by (simp add: log_ok_Nil)
next
  case (Cons c cs)
  show ?case
  proof (cases "text c")
    case (Inl e)
    with Cons.prems show ?thesis by (simp add: log_ok_Nil)
  next
    case (Inr v)
    obtain r1 L1 ev1 where cv: "convert_value d (Some v) c n L = (r1, L1, ev1)"
      by (cases "convert_value d (Some v) c n L") auto
    have ok1: "log_ok L L1 ev1" by (rule convert_value_log [OF cv])
    show ?thesis
    proof (cases r1)
      case (Inl e)
      with Cons.prems Inr cv ok1 show ?thesis by simp
    next
      case (Inr i) note r1 = this
      obtain r2 L2 ev2 where an: "annotate d text n cs (AList.update c i ann) L1 = (r2, L2, ev2)"
        by (cases "annotate d text n cs (AList.update c i ann) L1") auto
      have ok2: "log_ok L1 L2 ev2" by (rule Cons.IH [OF an])
      from Cons.prems \<open>text c = Inr v\<close> cv r1 an
      have "L' = L2" and "ev = ev1 @ ev2" by simp_all
      with log_ok_append [OF ok1 ok2] show ?thesis by simp
    qed
  qed
qed

lemma annotate_result_indep:
  "fst (annotate d text n cs ann L) = fst (annotate d text n' cs ann L')"
proof (induction cs arbitrary: ann L L')
  case Nil
  show ?case by simp
next
  case (Cons c cs)
  show ?case
  proof (cases "text c")
    case (Inl e)
    then show ?thesis by simp
  next
    case (Inr v)
    have f: "fst (convert_value d (Some v) c n L) = fst (convert_value d (Some v) c n' L')"
      by (simp add: convert_value_result)
    obtain r1 L1 ev1 where cv: "convert_value d (Some v) c n L = (r1, L1, ev1)"
      by (cases "convert_value d (Some v) c n L") auto
    obtain r1' L1' ev1' where cv': "convert_value d (Some v) c n' L' = (r1', L1', ev1')"
      by (cases "convert_value d (Some v) c n' L'") auto
    from f cv cv' have eq: "r1' = r1" by simp
    show ?thesis
    proof (cases r1)
      case (Inl e)
      with Inr cv cv' eq show ?thesis by simp
    next
      case (Inr i)
      from Cons.IH [of "AList.update c i ann" L1 L1'] Inr \<open>text c = Inr v\<close> cv cv' eq
      show ?thesis by (auto split: prod.splits)
    qed
  qed
qed

lemma annotate_keys:
  assumes "annotate d text n cs ann L = (Inr ann', L', ev)"
  shows "fst ` set ann' = fst ` set ann \<union> set cs
         \<and> (distinct (map fst ann) \<longrightarrow> distinct (map fst ann'))"
  using assms
proof (induction cs arbitrary: ann L L' ev)
  case Nil
  then show ?case by simp
next
  case (Cons c cs)
  from Cons.prems obtain v where t: "text c = Inr v"
    by (cases "text c") auto
  obtain r1 L1 ev1 where cv: "convert_value d (Some v) c n L = (r1, L1, ev1)"
    by (cases "convert_value d (Some v) c n L") auto
  from Cons.prems t cv obtain i where r1: "r1 = Inr i"
    by (cases r1) auto
  obtain r2 L2 ev2 where an: "annotate d text n cs (AList.update c i ann) L1 = (r2, L2, ev2)"
    by (cases "annotate d text n cs (AList.update c i ann) L1") auto
  from Cons.prems t cv r1 an have "r2 = Inr ann'" by simp
  with an have "annotate d text n cs (AList.update c i ann) L1 = (Inr ann', L2, ev2)" by simp
  from Cons.IH [OF this] show ?case
    by (auto simp: dom_update distinct_update)
qed

lemma annotate_values:
  assumes "annotate d text n cs ann L = (Inr ann', L', ev)"
  shows "(c \<in> set cs \<longrightarrow>
            (\<exists>v r. text c = Inr v \<and> gt_convert_value d v = Inr r
                   \<and> map_of ann' c = Some (case r of None \<Rightarrow> 0 | Some i \<Rightarrow> i)))
         \<and> (c \<notin> set cs \<longrightarrow> map_of ann' c = map_of ann c)"
  using assms
proof (induction cs arbitrary: ann L L' ev)
  case Nil
  then show ?case by simp
next
  case (Cons c0 cs)
  from Cons.prems obtain v where t: "text c0 = Inr v"
    by (cases "text c0") auto
  obtain r1 L1 ev1 where cv: "convert_value d (Some v) c0 n L = (r1, L1, ev1)"
    by (cases "convert_value d (Some v) c0 n L") auto
  from Cons.prems t cv obtain i where r1: "r1 = Inr i"
    by (cases r1) auto
  from cv r1 have "fst (convert_value d (Some v) c0 n L) = Inr i" by simp
  then obtain r where g: "gt_convert_value d v = Inr r"
    and i: "i = (case r of None \<Rightarrow> 0 | Some j \<Rightarrow> j)"
    by (auto simp: convert_value_result split: sum.splits)
  obtain r2 L2 ev2 where an: "annotate d text n cs (AList.update c0 i ann) L1 = (r2, L2, ev2)"
    by (cases "annotate d text n cs (AList.update c0 i ann) L1") auto
  from Cons.prems t cv r1 an have "r2 = Inr ann'" by simp
  with an have an': "annotate d text n cs (AList.update c0 i ann) L1 = (Inr ann', L2, ev2)"
    by simp
  note IH = Cons.IH [OF an']
  show ?case
  proof (cases "c \<in> set cs")
    case True
    with IH show ?thesis by simp
  next
    case False
    with IH have m: "map_of ann' c = map_of (AList.update c0 i ann) c" by simp
    show ?thesis
    proof (cases "c = c0")
      case True
      with m t g i False show ?thesis by (auto simp: update_conv')
    next
      case False
      with m \<open>c \<notin> set cs\<close> show ?thesis by (simp add: update_conv')
    qed
  qed
qed

lemma annotate_total:
  assumes "\<forall>c\<in>set cs. \<exists>v r. text c = Inr v \<and> gt_convert_value d v = Inr r"
  shows "\<exists>ann'. fst (annotate d text n cs ann L) = Inr ann'"
  using assms
proof (induction cs arbitrary: ann L)
  case Nil
  show ?case by simp
next
  case (Cons c cs)
  from Cons.prems obtain v r where t: "text c = Inr v" and g: "gt_convert_value d v = Inr r"
    by auto
  obtain r1 L1 ev1 where cv: "convert_value d (Some v) c n L = (r1, L1, ev1)"
    by (cases "convert_value d (Some v) c n L") auto
  from cv g have r1: "r1 = Inr (case r of None \<Rightarrow> 0 | Some i \<Rightarrow> i)"
    using convert_value_result [of d v c n L] by simp
  from Cons.prems have "\<forall>c\<in>set cs. \<exists>v r. text c = Inr v \<and> gt_convert_value d v = Inr r"
    by simp
  from Cons.IH [OF this, of "AList.update c (case r of None \<Rightarrow> 0 | Some i \<Rightarrow> i) ann" L1]
  show ?case using t cv r1 by (auto split: prod.splits)
qed

section \<open>One row, and the loop over the rows\<close>

lemma parse_row_log:
  assumes "parse_row d row t hv cm n L = (r, L', ev)"
  shows "log_ok L L' ev"
proof (cases "\<exists>vid. row_video_id d row = Some (Inr (Some vid)) \<and> vid \<noteq> []")
  case True
  then obtain vid where v: "row_video_id d row = Some (Inr (Some vid))" "vid \<noteq> []"
    by auto
  obtain r1 L1 ev1 where an:
    "annotate d (category_text hv row cm) n (ANNOTATION_CATEGORIES d) [] L = (r1, L1, ev1)"
    by (cases "annotate d (category_text hv row cm) n (ANNOTATION_CATEGORIES d) [] L") auto
  from assms v an have "L' = L1 \<and> ev = ev1"
    by (cases r1) (simp_all add: parse_row_def)
  with annotate_log [OF an] show ?thesis by simp
next
  case False
  with assms have "L' = L \<and> ev = []"
    by (auto simp: parse_row_def split: option.splits sum.splits if_splits)
  then show ?thesis by (simp add: log_ok_Nil)
qed

lemma parse_row_result_indep:
  "fst (parse_row d row t hv cm n L) = fst (parse_row d row t' hv cm n' L')"
proof -
  have "fst (annotate d (category_text hv row cm) n (ANNOTATION_CATEGORIES d) [] L)
        = fst (annotate d (category_text hv row cm) n' (ANNOTATION_CATEGORIES d) [] L')"
    by (rule annotate_result_indep)
  then show ?thesis
    by (auto simp: parse_row_def split: option.splits sum.splits prod.splits)
qed

lemma parse_row_outcome: "fst (parse_row d row t hv cm n L) = row_outcome d hv cm row"
  unfolding row_outcome_def by (rule parse_row_result_indep)

lemma parse_row_annotate:
  assumes "fst (parse_row d row t hv cm n L) = Inr (Some p)"
  shows "\<exists>L' ev. annotate d (category_text hv row cm) n (ANNOTATION_CATEGORIES d) [] L
                   = (Inr (PredictionResult.predictions p), L', ev)"
  using assms
  by (auto simp: parse_row_def split: option.splits sum.splits prod.splits if_splits)

lemma parse_row_keys:
  assumes "fst (parse_row d row t hv cm n L) = Inr (Some p)"
  shows "set (map fst (PredictionResult.predictions p)) = set (ANNOTATION_CATEGORIES d)
         \<and> distinct (map fst (PredictionResult.predictions p))"
proof -
  from parse_row_annotate [OF assms] obtain L' ev where
    "annotate d (category_text hv row cm) n (ANNOTATION_CATEGORIES d) [] L
       = (Inr (PredictionResult.predictions p), L', ev)"
    by blast
  from annotate_keys [OF this] show ?thesis by simp
qed

lemma parse_row_values:
  assumes "fst (parse_row d row t hv cm n L) = Inr (Some p)"
    and "c \<in> set (ANNOTATION_CATEGORIES d)"
  shows "\<exists>v r. category_text hv row cm c = Inr v \<and> gt_convert_value d v = Inr r
               \<and> map_of (PredictionResult.predictions p) c
                   = Some (case r of None \<Rightarrow> 0 | Some i \<Rightarrow> i)"
proof -
  from parse_row_annotate [OF assms(1)] obtain L' ev where
    "annotate d (category_text hv row cm) n (ANNOTATION_CATEGORIES d) [] L
       = (Inr (PredictionResult.predictions p), L', ev)"
    by blast
  from annotate_values [OF this, of c] assms(2) show ?thesis by simp
qed

lemma parse_row_total:
  assumes "row_video_id d row = Some (Inr (Some vid))" and "vid \<noteq> []"
    and "\<forall>c\<in>set (ANNOTATION_CATEGORIES d).
           \<exists>v r. category_text hv row cm c = Inr v \<and> gt_convert_value d v = Inr r"
  shows "\<exists>p. fst (parse_row d row t hv cm n L) = Inr (Some p) \<and> video_id p = vid"
proof -
  from annotate_total [OF assms(3), of n "[]" L] obtain ann where
    "fst (annotate d (category_text hv row cm) n (ANNOTATION_CATEGORIES d) [] L) = Inr ann"
    by blast
  with assms(1,2) show ?thesis
    by (auto simp: parse_row_def split: prod.splits)
qed

lemma parse_rows_log:
  assumes "parse_rows d t hv cm n rows preds errs L = (ps, es, L', ev)"
  shows "log_ok L L' ev"
  using assms
proof (induction rows arbitrary: n preds errs L ps es L' ev)
  case Nil
  then show ?case by (simp add: log_ok_Nil)
next
  case (Cons row rows)
  obtain r1 L1 ev1 where pr: "parse_row d row t hv cm n L = (r1, L1, ev1)"
    by (cases "parse_row d row t hv cm n L") auto
  have ok1: "log_ok L L1 ev1" by (rule parse_row_log [OF pr])
  obtain preds1 errs1 where acc:
    "preds1 = (case r1 of Inr (Some p) \<Rightarrow> preds @ [p] | _ \<Rightarrow> preds)"
    "errs1 = (case r1 of Inl e \<Rightarrow> errs @ [diagnostic n e] | _ \<Rightarrow> errs)"
    by simp
  obtain ps2 es2 L2 ev2 where rest:
    "parse_rows d t hv cm (Suc n) rows preds1 errs1 L1 = (ps2, es2, L2, ev2)"
    by (cases "parse_rows d t hv cm (Suc n) rows preds1 errs1 L1") auto
  have ok2: "log_ok L1 L2 ev2" by (rule Cons.IH [OF rest])
  from Cons.prems pr acc rest have "L' = L2 \<and> ev = ev1 @ ev2"
    by (auto split: sum.splits option.splits)
  with log_ok_append [OF ok1 ok2] show ?case by simp
qed

lemma enumerate_Cons: "enumerate n (x # xs) = (n, x) # enumerate (Suc n) xs"
  by simp

lemma parse_rows_outcome:
  "fst (parse_rows d t hv cm n rows preds errs L) = preds @ collected d hv cm rows
   \<and> fst (snd (parse_rows d t hv cm n rows preds errs L)) = errs @ diagnostics d hv cm n rows"
proof (induction rows arbitrary: n preds errs L)
  case Nil
  show ?case by (simp add: collected_def diagnostics_def)
next
  case (Cons row rows)
  obtain r1 L1 ev1 where pr: "parse_row d row t hv cm n L = (r1, L1, ev1)"
    by (cases "parse_row d row t hv cm n L") auto
  then have ro: "row_outcome d hv cm row = r1"
    using parse_row_outcome [of d row t hv cm n L] by simp
  show ?case
  proof (cases r1)
    case (Inl e)
    with pr ro Cons.IH [of "Suc n" preds "errs @ [diagnostic n e]" L1] show ?thesis
      by (auto simp: collected_def diagnostics_def split: prod.splits)
  next
    case (Inr pred)
    with pr ro Cons.IH [of "Suc n" "case pred of Some p \<Rightarrow> preds @ [p] | None \<Rightarrow> preds" errs L1]
    show ?thesis
      by (cases pred) (auto simp: collected_def diagnostics_def split: prod.splits)
  qed
qed

section \<open>Keys and values of a record\<close>

lemma collected_member:
  assumes "r \<in> set (collected d hv cm rows)"
  shows "\<exists>row\<in>set rows. row_outcome d hv cm row = Inr (Some r)"
  using assms
  by (auto simp: collected_def split: sum.splits option.splits)

lemma load_records:
  assumes "fst (load d self fs csv_path) = Inr ps"
  shows "\<exists>fieldnames rows. fs csv_path = Some (CsvFile fieldnames rows)
           \<and> PredictionSet.predictions ps
               = collected d (detect_value_columns (header_columns fieldnames))
                   (fst (build_column_mapping d (header_columns fieldnames))) rows"
proof -
  from assms obtain fieldnames rows where f: "fs csv_path = Some (CsvFile fieldnames rows)"
    by (auto simp: load_def split: option.splits fsnode.splits)
  let ?hv = "detect_value_columns (header_columns fieldnames)"
  let ?cm = "fst (build_column_mapping d (header_columns fieldnames))"
  obtain preds errs L ev where
    r: "parse_rows d False ?hv ?cm 2 rows [] [] {} = (preds, errs, L, ev)"
    by (cases "parse_rows d False ?hv ?cm 2 rows [] [] {}") auto
  from parse_rows_outcome [of d False ?hv ?cm 2 rows "[]" "[]" "{}"] r
  have "preds = collected d ?hv ?cm rows" by simp
  with load_csv [where fs = fs and csv_path = csv_path, OF f r, of self] assms f
  show ?thesis by auto
qed

lemma standard_text_missing:
  assumes "row (Some c) = None"
  shows "category_text False row cm c = Inr []"
  using assms
  by (simp add: category_text_def standard_text_def row_get_def cell_strip_def strip_def)

lemma value_columns_text_missing:
  assumes "\<forall>col. find_csv_col c = Some col \<longrightarrow> row (Some col) = None"
    and "\<forall>col. map_of cm (lower c) = Some col \<longrightarrow> row (Some col) = None"
  shows "category_text True row cm c = Inr []"
proof -
  have g: "\<And>col. row (Some col) = None \<Longrightarrow> cell_strip (row_get row (Some col)) = Inr []"
    by (simp add: row_get_def cell_strip_def strip_def)
  show ?thesis
  proof (cases "find_csv_col c")
    case None
    with assms(2) g show ?thesis
      by (auto simp: category_text_def value_columns_text_def Let_def split: option.splits)
  next
    case (Some col)
    with assms(1) have "row (Some col) = None" by simp
    with Some assms(2) g show ?thesis
      by (auto simp: category_text_def value_columns_text_def Let_def split: option.splits)
  qed
qed

text \<open>
Claim C1.  Every record of the Prediction Set that \<open>load\<close> returns has exactly one
  entry for every category of \<open>ANNOTATION_CATEGORIES\<close> and no other, whatever the
  header of the file.  The entry is 0 when the normalizer does not recognise the text
  read for the category, and when that text is empty and the normalizer maps the empty
  string to 0 or does not recognise it.  A category with no column in the row has the
  empty text, in the standard layout and in the value-columns layout.
\<close>

theorem record_has_every_category:
  "(fst (load d self fs csv_path) = Inr ps \<and> r \<in> set (PredictionSet.predictions ps) \<longrightarrow>
      set (map fst (PredictionResult.predictions r)) = set (ANNOTATION_CATEGORIES d)
      \<and> distinct (map fst (PredictionResult.predictions r)))
   \<and> (fst (parse_row d row t hv cm n L) = Inr (Some p) \<and> c \<in> set (ANNOTATION_CATEGORIES d)
        \<and> category_text hv row cm c = Inr v
        \<and> (gt_convert_value d v = Inr None \<or> v = [] \<and> gt_convert_value d [] = Inr (Some 0)) \<longrightarrow>
        map_of (PredictionResult.predictions p) c = Some 0)
   \<and> (row (Some c) = None \<longrightarrow> category_text False row cm c = Inr [])
   \<and> ((\<forall>col. find_csv_col c = Some col \<longrightarrow> row (Some col) = None)
        \<and> (\<forall>col. map_of cm (lower c) = Some col \<longrightarrow> row (Some col) = None) \<longrightarrow>
        category_text True row cm c = Inr [])"
proof (intro conjI impI)
  assume a: "fst (load d self fs csv_path) = Inr ps \<and> r \<in> set (PredictionSet.predictions ps)"
  from load_records [of d self fs csv_path ps] a obtain fieldnames rows where
    "r \<in> set (collected d (detect_value_columns (header_columns fieldnames))
                 (fst (build_column_mapping d (header_columns fieldnames))) rows)"
    by auto
  from collected_member [OF this] obtain row' where
    "row_outcome d (detect_value_columns (header_columns fieldnames))
        (fst (build_column_mapping d (header_columns fieldnames))) row' = Inr (Some r)"
    by blast
  then have k: "fst (parse_row d row' False (detect_value_columns (header_columns fieldnames))
        (fst (build_column_mapping d (header_columns fieldnames))) 0 {}) = Inr (Some r)"
    by (simp add: row_outcome_def)
  from parse_row_keys [OF k]
  show "set (map fst (PredictionResult.predictions r)) = set (ANNOTATION_CATEGORIES d)"
    and "distinct (map fst (PredictionResult.predictions r))"
    by simp_all
next
  assume b: "fst (parse_row d row t hv cm n L) = Inr (Some p) \<and> c \<in> set (ANNOTATION_CATEGORIES d)
        \<and> category_text hv row cm c = Inr v
        \<and> (gt_convert_value d v = Inr None \<or> v = [] \<and> gt_convert_value d [] = Inr (Some 0))"
  then have p: "fst (parse_row d row t hv cm n L) = Inr (Some p)"
    and c: "c \<in> set (ANNOTATION_CATEGORIES d)" by simp_all
  from parse_row_values [OF p c] b
  show "map_of (PredictionResult.predictions p) c = Some 0"
    by auto
next
  assume "row (Some c) = None"
  then show "category_text False row cm c = Inr []"
    by (rule standard_text_missing)
next
  assume "(\<forall>col. find_csv_col c = Some col \<longrightarrow> row (Some col) = None)
        \<and> (\<forall>col. map_of cm (lower c) = Some col \<longrightarrow> row (Some col) = None)"
  then show "category_text True row cm c = Inr []"
    using value_columns_text_missing [of c row cm] by blast
qed

theorem record_has_every_category_witness:
  "(set (map fst (PredictionResult.predictions
        (hd (PredictionSet.predictions
              (projr (fst (load sample_deps sample_self sample_fs ''preds.csv'')))))))
      = set (ANNOTATION_CATEGORIES sample_deps)
    \<and> distinct (map fst (PredictionResult.predictions
        (hd (PredictionSet.predictions
              (projr (fst (load sample_deps sample_self sample_fs ''preds.csv''))))))))
   \<and> map_of (PredictionResult.predictions
        (the (projr (fst (parse_row sample_deps bogus_row False False [] 4 {})))))
        ''Hedonism'' = Some 0
   \<and> category_text False bogus_row [] ''Power_Dominance'' = Inr []
   \<and> category_text True bogus_row [] ''Power_Dominance'' = Inr []"
proof (intro conjI)
  let ?ps = "projr (fst (load sample_deps sample_self sample_fs ''preds.csv''))"
  have a: "fst (load sample_deps sample_self sample_fs ''preds.csv'') = Inr ?ps
           \<and> hd (PredictionSet.predictions ?ps) \<in> set (PredictionSet.predictions ?ps)"
    by code_simp
  note A = record_has_every_category [where fs = sample_fs and csv_path = "''preds.csv''",
             THEN conjunct1, THEN mp, OF a]
  from A show "set (map fst (PredictionResult.predictions (hd (PredictionSet.predictions ?ps))))
      = set (ANNOTATION_CATEGORIES sample_deps)"
    by (rule conjunct1)
  from A show "distinct (map fst (PredictionResult.predictions
                  (hd (PredictionSet.predictions ?ps))))"
    by (rule conjunct2)
next
  let ?p = "the (projr (fst (parse_row sample_deps bogus_row False False [] 4 {})))"
  have b: "fst (parse_row sample_deps bogus_row False False [] 4 {}) = Inr (Some ?p)
           \<and> ''Hedonism'' \<in> set (ANNOTATION_CATEGORIES sample_deps)
           \<and> category_text False bogus_row [] ''Hedonism'' = Inr ''bogus''
           \<and> (gt_convert_value sample_deps ''bogus'' = Inr None
                \<or> ''bogus'' = [] \<and> gt_convert_value sample_deps [] = Inr (Some 0))"
    by code_simp
  show "map_of (PredictionResult.predictions ?p) ''Hedonism'' = Some 0"
    by (rule record_has_every_category [where row = bogus_row,
               THEN conjunct2, THEN conjunct1, THEN mp, OF b])
next
  have c: "bogus_row (Some ''Power_Dominance'') = None"
    by (simp add: bogus_row_def)
  show "category_text False bogus_row [] ''Power_Dominance'' = Inr []"
    by (rule record_has_every_category [where row = bogus_row,
               THEN conjunct2, THEN conjunct2, THEN conjunct1, THEN mp, OF c])
next
  have fc: "find_csv_col ''Power_Dominance'' = Some ''1_Value1_Power_dominance_values''"
    by code_simp
  have e: "(\<forall>col. find_csv_col ''Power_Dominance'' = Some col \<longrightarrow> bogus_row (Some col) = None)
        \<and> (\<forall>col. map_of [] (lower ''Power_Dominance'') = Some col \<longrightarrow> bogus_row (Some col) = None)"
    by (simp add: fc bogus_row_def)
  show "category_text True bogus_row [] ''Power_Dominance'' = Inr []"
    by (rule record_has_every_category [where row = bogus_row,
               THEN conjunct2, THEN conjunct2, THEN conjunct2, THEN mp, OF e])
qed

section \<open>Unrecognised values\<close>

lemma unexpected_keys_columns: "unexpected_keys (snd (build_column_mapping d columns)) = []"
proof -
  have one: "\<And>cm c. unexpected_keys (report_category columns cm c) = []"
    by (simp add: report_category_def Let_def split: option.splits)
  have "\<And>cm. unexpected_keys (concat (map (report_category columns cm) cs)) = []" for cs
    by (induction cs) (simp_all add: unexpected_keys_append one)
  then show ?thesis
    by (simp add: build_column_mapping_def Let_def)
qed

lemma unexpected_keys_report: "unexpected_keys (report_parse_errors es) = []"
proof -
  have "unexpected_keys (map ParseError xs) = []" for xs
    by (induction xs) simp_all
  then show ?thesis by (simp add: report_parse_errors_def)
qed

lemma load_log:
  assumes "load d self fs csv_path = (res, self', ev)"
  shows "distinct (unexpected_keys ev) \<and> [] \<notin> snd ` set (unexpected_keys ev)"
proof (cases "\<exists>fieldnames rows. fs csv_path = Some (CsvFile fieldnames rows)")
  case False
  with assms have "ev = []"
    by (auto simp: load_def split: option.splits fsnode.splits)
  then show ?thesis by simp
next
  case True
  then obtain fieldnames rows where f: "fs csv_path = Some (CsvFile fieldnames rows)"
    by blast
  let ?hv = "detect_value_columns (header_columns fieldnames)"
  let ?cm = "fst (build_column_mapping d (header_columns fieldnames))"
  obtain preds errs L ev_rows where
    r: "parse_rows d False ?hv ?cm 2 rows [] [] {} = (preds, errs, L, ev_rows)"
    by (cases "parse_rows d False ?hv ?cm 2 rows [] [] {}") auto
  from load_csv [where fs = fs and csv_path = csv_path, OF f r, of self] assms
  have "unexpected_keys ev = unexpected_keys ev_rows"
    by (auto simp: unexpected_keys_append unexpected_keys_columns unexpected_keys_report)
  with parse_rows_log [OF r] show ?thesis
    by (simp add: log_ok_def)
qed

lemma strip_blank:
  assumes "\<forall>ch\<in>set s. isspace ch"
  shows "strip s = []"
proof -
  from assms have blank: "dropWhile isspace s = []" by simp
  show ?thesis unfolding strip_def blank by simp
qed

text \<open>
Claim C6.  In the logger calls of one \<open>load\<close>, no pair (category, value) has more
  than one \<open>Unexpected value\<close> warning, and no such warning is for the empty text.
  When the normalizer does not recognise a non-empty text, \<open>_convert_value\<close> returns 0,
  records the pair and warns only if the pair was not recorded before; the entry stored
  in the record is 0.  The empty text converts to 0 without a warning and without a new
  pair, the normalizer mapping it to 0 or not recognising it; a cell of white space
  only is read as the empty text.  In the witness file the value \<open>bogus\<close> stands under
  \<open>Hedonism\<close> in two rows and is warned about once.
\<close>

theorem unexpected_value_logged_once:
  "(load d self fs csv_path = (res, self', ev) \<longrightarrow>
      distinct (unexpected_keys ev) \<and> [] \<notin> snd ` set (unexpected_keys ev))
   \<and> (gt_convert_value d v = Inr None \<and> v \<noteq> [] \<longrightarrow>
        convert_value d (Some v) c n L
          = (Inr 0, insert (c, v) L, if (c, v) \<in> L then [] else [UnexpectedValue v c n]))
   \<and> (fst (parse_row d row t hv cm n L) = Inr (Some p) \<and> c \<in> set (ANNOTATION_CATEGORIES d)
        \<and> category_text hv row cm c = Inr v \<and> gt_convert_value d v = Inr None \<longrightarrow>
        map_of (PredictionResult.predictions p) c = Some 0)
   \<and> (gt_convert_value d [] = Inr None \<or> gt_convert_value d [] = Inr (Some 0) \<longrightarrow>
        convert_value d (Some []) c n L = (Inr 0, L, []))
   \<and> ((\<forall>ch\<in>set s. isspace ch) \<longrightarrow> cell_strip (Some s) = Inr [])"
proof (intro conjI impI)
  assume "load d self fs csv_path = (res, self', ev)"
  from load_log [OF this]
  show "distinct (unexpected_keys ev)" and "[] \<notin> snd ` set (unexpected_keys ev)"
    by simp_all
next
  assume "gt_convert_value d v = Inr None \<and> v \<noteq> []"
  then show "convert_value d (Some v) c n L
          = (Inr 0, insert (c, v) L, if (c, v) \<in> L then [] else [UnexpectedValue v c n])"
    by (auto simp: convert_value_def)
next
  assume b: "fst (parse_row d row t hv cm n L) = Inr (Some p) \<and> c \<in> set (ANNOTATION_CATEGORIES d)
        \<and> category_text hv row cm c = Inr v \<and> gt_convert_value d v = Inr None"
  then have p: "fst (parse_row d row t hv cm n L) = Inr (Some p)"
    and c: "c \<in> set (ANNOTATION_CATEGORIES d)" by simp_all
  from parse_row_values [OF p c] b
  show "map_of (PredictionResult.predictions p) c = Some 0"
    by auto
next
  assume "gt_convert_value d [] = Inr None \<or> gt_convert_value d [] = Inr (Some 0)"
  then show "convert_value d (Some []) c n L = (Inr 0, L, [])"
    by (auto simp: convert_value_def)
next
  assume "\<forall>ch\<in>set s. isspace ch"
  then show "cell_strip (Some s) = Inr []"
    by (simp add: cell_strip_def strip_blank)
qed

theorem unexpected_value_logged_once_witness:
  "(distinct (unexpected_keys (snd (snd (load sample_deps sample_self sample_fs ''preds.csv''))))
    \<and> [] \<notin> snd ` set (unexpected_keys
                         (snd (snd (load sample_deps sample_self sample_fs ''preds.csv'')))))
   \<and> unexpected_keys (snd (snd (load sample_deps sample_self sample_fs ''preds.csv'')))
       = [(''Hedonism'', ''bogus'')]
   \<and> category_text False (sample_rows ! 1) [] ''Hedonism'' = Inr ''bogus''
   \<and> category_text False (sample_rows ! 2) [] ''Hedonism'' = Inr ''bogus''
   \<and> convert_value sample_deps (Some ''bogus'') ''Hedonism'' 3 {}
       = (Inr 0, insert (''Hedonism'', ''bogus'') {},
          if (''Hedonism'', ''bogus'') \<in> {} then [] else [UnexpectedValue ''bogus'' ''Hedonism'' 3])
   \<and> map_of (PredictionResult.predictions
        (the (projr (fst (parse_row sample_deps bogus_row False False [] 4 {})))))
        ''Hedonism'' = Some 0
   \<and> convert_value sample_deps (Some []) ''Face'' 2 {} = (Inr 0, {}, [])
   \<and> cell_strip (Some ''  '') = Inr []"
proof (intro conjI)
  let ?l = "load sample_deps sample_self sample_fs ''preds.csv''"
  have a: "?l = (fst ?l, fst (snd ?l), snd (snd ?l))"
    by simp
  note A = unexpected_value_logged_once [where fs = sample_fs and csv_path = "''preds.csv''",
             THEN conjunct1, THEN mp, OF a]
  from A show "distinct (unexpected_keys (snd (snd ?l)))"
    by (rule conjunct1)
  from A show "[] \<notin> snd ` set (unexpected_keys (snd (snd ?l)))"
    by (rule conjunct2)
  show "unexpected_keys (snd (snd ?l)) = [(''Hedonism'', ''bogus'')]"
    by code_simp
  show "category_text False (sample_rows ! 1) [] ''Hedonism'' = Inr ''bogus''"
    by code_simp
  show "category_text False (sample_rows ! 2) [] ''Hedonism'' = Inr ''bogus''"
    by code_simp
next
  have b: "gt_convert_value sample_deps ''bogus'' = Inr None \<and> ''bogus'' \<noteq> []"
    by code_simp
  show "convert_value sample_deps (Some ''bogus'') ''Hedonism'' 3 {}
       = (Inr 0, insert (''Hedonism'', ''bogus'') {},
          if (''Hedonism'', ''bogus'') \<in> {} then [] else [UnexpectedValue ''bogus'' ''Hedonism'' 3])"
    by (rule unexpected_value_logged_once [THEN conjunct2, THEN conjunct1, THEN mp, OF b])
next
  let ?p = "the (projr (fst (parse_row sample_deps bogus_row False False [] 4 {})))"
  have c: "fst (parse_row sample_deps bogus_row False False [] 4 {}) = Inr (Some ?p)
           \<and> ''Hedonism'' \<in> set (ANNOTATION_CATEGORIES sample_deps)
           \<and> category_text False bogus_row [] ''Hedonism'' = Inr ''bogus''
           \<and> gt_convert_value sample_deps ''bogus'' = Inr None"
    by code_simp
  show "map_of (PredictionResult.predictions ?p) ''Hedonism'' = Some 0"
    by (rule unexpected_value_logged_once [where row = bogus_row,
               THEN conjunct2, THEN conjunct2, THEN conjunct1, THEN mp, OF c])
next
  have e: "gt_convert_value sample_deps [] = Inr None
           \<or> gt_convert_value sample_deps [] = Inr (Some 0)"
    by code_simp
  show "convert_value sample_deps (Some []) ''Face'' 2 {} = (Inr 0, {}, [])"
    by (rule unexpected_value_logged_once [THEN conjunct2, THEN conjunct2, THEN conjunct2,
               THEN conjunct1, THEN mp, OF e])
next
  have g: "\<forall>ch\<in>set ''  ''. isspace ch"
    by code_simp
  show "cell_strip (Some ''  '') = Inr []"
    by (rule unexpected_value_logged_once [THEN conjunct2, THEN conjunct2, THEN conjunct2,
               THEN conjunct2, THEN mp, OF g])
qed

section \<open>Diagnostics of the rows that raised\<close>

lemma surfaced_diagnostics_append:
  "surfaced_diagnostics (a @ b) = surfaced_diagnostics a @ surfaced_diagnostics b"
  by (induction a rule: surfaced_diagnostics.induct) simp_all

lemma surfaced_convert_value:
  assumes "convert_value d vs c n L = (r, L', ev)"
  shows "surfaced_diagnostics ev = []"
  using assms
  by (auto simp: convert_value_def split: option.splits sum.splits if_splits)

lemma surfaced_annotate:
  assumes "annotate d text n cs ann L = (r, L', ev)"
  shows "surfaced_diagnostics ev = []"
  using assms
proof (induction cs arbitrary: ann L r L' ev)
  case Nil
  then show ?case by simp
next
  case (Cons c cs)
  show ?case
  proof (cases "text c")
    case (Inl e)
    with Cons.prems show ?thesis by simp
  next
    case (Inr v)
    obtain r1 L1 ev1 where cv: "convert_value d (Some v) c n L = (r1, L1, ev1)"
      by (cases "convert_value d (Some v) c n L") auto
    have s1: "surfaced_diagnostics ev1 = []" by (rule surfaced_convert_value [OF cv])
    show ?thesis
    proof (cases r1)
      case (Inl e)
      with Cons.prems Inr cv s1 show ?thesis by simp
    next
      case (Inr i) note r1 = this
      obtain r2 L2 ev2 where an: "annotate d text n cs (AList.update c i ann) L1 = (r2, L2, ev2)"
        by (cases "annotate d text n cs (AList.update c i ann) L1") auto
      have s2: "surfaced_diagnostics ev2 = []" by (rule Cons.IH [OF an])
      from Cons.prems \<open>text c = Inr v\<close> cv r1 an have "ev = ev1 @ ev2" by simp
      with s1 s2 show ?thesis by (simp add: surfaced_diagnostics_append)
    qed
  qed
qed

lemma surfaced_parse_row:
  assumes "parse_row d row t hv cm n L = (r, L', ev)"
  shows "surfaced_diagnostics ev = []"
proof (cases "\<exists>vid. row_video_id d row = Some (Inr (Some vid)) \<and> vid \<noteq> []")
  case True
  then obtain vid where v: "row_video_id d row = Some (Inr (Some vid))" "vid \<noteq> []"
    by auto
  obtain r1 L1 ev1 where an:
    "annotate d (category_text hv row cm) n (ANNOTATION_CATEGORIES d) [] L = (r1, L1, ev1)"
    by (cases "annotate d (category_text hv row cm) n (ANNOTATION_CATEGORIES d) [] L") auto
  from assms v an have "ev = ev1"
    by (cases r1) (simp_all add: parse_row_def)
  with surfaced_annotate [OF an] show ?thesis by simp
next
  case False
  with assms have "ev = []"
    by (auto simp: parse_row_def split: option.splits sum.splits if_splits)
  then show ?thesis by simp
qed

lemma surfaced_parse_rows:
  assumes "parse_rows d t hv cm n rows preds errs L = (ps, es, L', ev)"
  shows "surfaced_diagnostics ev = []"
  using assms
proof (induction rows arbitrary: n preds errs L ps es L' ev)
  case Nil
  then show ?case by simp
next
  case (Cons row rows)
  obtain r1 L1 ev1 where pr: "parse_row d row t hv cm n L = (r1, L1, ev1)"
    by (cases "parse_row d row t hv cm n L") auto
  have s1: "surfaced_diagnostics ev1 = []" by (rule surfaced_parse_row [OF pr])
  obtain preds1 errs1 where acc:
    "preds1 = (case r1 of Inr (Some p) \<Rightarrow> preds @ [p] | _ \<Rightarrow> preds)"
    "errs1 = (case r1 of Inl e \<Rightarrow> errs @ [diagnostic n e] | _ \<Rightarrow> errs)"
    by simp
  obtain ps2 es2 L2 ev2 where rest:
    "parse_rows d t hv cm (Suc n) rows preds1 errs1 L1 = (ps2, es2, L2, ev2)"
    by (cases "parse_rows d t hv cm (Suc n) rows preds1 errs1 L1") auto
  have s2: "surfaced_diagnostics ev2 = []" by (rule Cons.IH [OF rest])
  from Cons.prems pr acc rest have "ev = ev1 @ ev2"
    by (auto split: sum.splits option.splits)
  with s1 s2 show ?case by (simp add: surfaced_diagnostics_append)
qed

lemma surfaced_columns: "surfaced_diagnostics (snd (build_column_mapping d columns)) = []"
proof -
  have one: "\<And>cm c. surfaced_diagnostics (report_category columns cm c) = []"
    by (simp add: report_category_def Let_def split: option.splits)
  have "\<And>cm. surfaced_diagnostics (concat (map (report_category columns cm) cs)) = []" for cs
    by (induction cs) (simp_all add: surfaced_diagnostics_append one)
  then show ?thesis
    by (simp add: build_column_mapping_def Let_def)
qed

lemma surfaced_report: "surfaced_diagnostics (report_parse_errors es) = take 5 es"
proof -
  have "surfaced_diagnostics (map ParseError xs) = xs" for xs
    by (induction xs) simp_all
  then show ?thesis by (simp add: report_parse_errors_def)
qed

lemma collected_append:
  "collected d hv cm (rows1 @ rows2) = collected d hv cm rows1 @ collected d hv cm rows2"
  by (simp add: collected_def)

lemma diagnostics_append:
  "diagnostics d hv cm n (rows1 @ rows2)
     = diagnostics d hv cm n rows1 @ diagnostics d hv cm (n + length rows1) rows2"
  by (simp add: diagnostics_def enumerate_append_eq)

lemma load_outcome:
  assumes "fs csv_path = Some (CsvFile fieldnames rows)"
  shows "\<exists>ps L ev_rows.
           load d self fs csv_path =
             (Inr ps, self\<lparr>logged_unexpected_values := L\<rparr>,
              [DetectedFormat (detect_tiktok_format (header_columns fieldnames))
                              (detect_value_columns (header_columns fieldnames))]
                @ snd (build_column_mapping d (header_columns fieldnames))
                @ [BuiltColumnMapping
                     (length (fst (build_column_mapping d (header_columns fieldnames))))]
                @ ev_rows
                @ report_parse_errors
                    (diagnostics d (detect_value_columns (header_columns fieldnames))
                       (fst (build_column_mapping d (header_columns fieldnames))) 2 rows)
                @ [Loaded (length (PredictionSet.predictions ps)) csv_path])
           \<and> PredictionSet.predictions ps
               = collected d (detect_value_columns (header_columns fieldnames))
                   (fst (build_column_mapping d (header_columns fieldnames))) rows
           \<and> surfaced_diagnostics ev_rows = []"
proof -
  let ?hv = "detect_value_columns (header_columns fieldnames)"
  let ?cm = "fst (build_column_mapping d (header_columns fieldnames))"
  obtain preds errs L ev where
    r: "parse_rows d False ?hv ?cm 2 rows [] [] {} = (preds, errs, L, ev)"
    by (cases "parse_rows d False ?hv ?cm 2 rows [] [] {}") auto
  from parse_rows_outcome [of d False ?hv ?cm 2 rows "[]" "[]" "{}"] r
  have o: "preds = collected d ?hv ?cm rows" "errs = diagnostics d ?hv ?cm 2 rows"
    by simp_all
  have s: "surfaced_diagnostics ev = []" by (rule surfaced_parse_rows [OF r])
  from load_csv [where fs = fs and csv_path = csv_path, OF assms r, of self] o s
  show ?thesis by auto
qed

section \<open>Rows that raise\<close>

text \<open>
Claim C5.  The entry of \<open>parse_errors\<close> for an exception \<open>e\<close> raised on row \<open>n\<close> is
  the text \<open>Row n: \<close> followed by \<open>str(e)\<close>.  What \<open>_parse_row\<close> returns or raises on a
  row is \<open>row_outcome\<close>.  The loop never aborts: from any state it ends with the
  records it started with followed by the records of the rows that gave one, and with
  the diagnostics it started with followed by one diagnostic per row that raised, in
  file order; a row that raises adds no record, adds its diagnostic under its own row
  number, and the rows after it are parsed as before.  For a file that opens, \<open>load\<close>
  returns those records, logs the first five diagnostics at most, and logs the count of
  all of them when there is one.
\<close>

theorem row_exception_recovered:
  "diagnostic n e = ''Row '' @ str_nat n @ '': '' @ str_exn e
   \<and> fst (parse_row d row t hv cm n L) = row_outcome d hv cm row
   \<and> fst (parse_rows d t hv cm n rows preds errs L) = preds @ collected d hv cm rows
   \<and> fst (snd (parse_rows d t hv cm n rows preds errs L)) = errs @ diagnostics d hv cm n rows
   \<and> (row_outcome d hv cm row = Inl e \<longrightarrow>
        collected d hv cm (rows1 @ row # rows2)
          = collected d hv cm rows1 @ collected d hv cm rows2
        \<and> diagnostics d hv cm n (rows1 @ row # rows2)
          = diagnostics d hv cm n rows1 @ diagnostic (n + length rows1) e
              # diagnostics d hv cm (Suc (n + length rows1)) rows2)
   \<and> (fs csv_path = Some (CsvFile fieldnames rows) \<longrightarrow>
        map_sum id PredictionSet.predictions (fst (load d self fs csv_path))
          = Inr (collected d (detect_value_columns (header_columns fieldnames))
                   (fst (build_column_mapping d (header_columns fieldnames))) rows)
        \<and> surfaced_diagnostics (snd (snd (load d self fs csv_path)))
          = take 5 (diagnostics d (detect_value_columns (header_columns fieldnames))
                      (fst (build_column_mapping d (header_columns fieldnames))) 2 rows)
        \<and> (diagnostics d (detect_value_columns (header_columns fieldnames))
              (fst (build_column_mapping d (header_columns fieldnames))) 2 rows = []
            \<or> ParseErrors
                 (length (diagnostics d (detect_value_columns (header_columns fieldnames))
                            (fst (build_column_mapping d (header_columns fieldnames))) 2 rows))
                \<in> set (snd (snd (load d self fs csv_path)))))"
proof (intro conjI impI)
  show "diagnostic n e = ''Row '' @ str_nat n @ '': '' @ str_exn e"
    by (simp add: diagnostic_def)
  show "fst (parse_row d row t hv cm n L) = row_outcome d hv cm row"
    by (rule parse_row_outcome)
  show "fst (parse_rows d t hv cm n rows preds errs L) = preds @ collected d hv cm rows"
    using parse_rows_outcome [of d t hv cm n rows preds errs L] by (rule conjunct1)
  show "fst (snd (parse_rows d t hv cm n rows preds errs L))
          = errs @ diagnostics d hv cm n rows"
    using parse_rows_outcome [of d t hv cm n rows preds errs L] by (rule conjunct2)
next
  assume r: "row_outcome d hv cm row = Inl e"
  then have "collected d hv cm [row] = []"
    by (simp add: collected_def)
  then show "collected d hv cm (rows1 @ row # rows2)
          = collected d hv cm rows1 @ collected d hv cm rows2"
    using collected_append [of d hv cm rows1 "[row] @ rows2"]
          collected_append [of d hv cm "[row]" rows2] by simp
  from r have "diagnostics d hv cm (n + length rows1) [row] = [diagnostic (n + length rows1) e]"
    by (simp add: diagnostics_def)
  then show "diagnostics d hv cm n (rows1 @ row # rows2)
          = diagnostics d hv cm n rows1 @ diagnostic (n + length rows1) e
              # diagnostics d hv cm (Suc (n + length rows1)) rows2"
    using diagnostics_append [of d hv cm n rows1 "[row] @ rows2"]
          diagnostics_append [of d hv cm "n + length rows1" "[row]" rows2] by simp
next
  assume f: "fs csv_path = Some (CsvFile fieldnames rows)"
  let ?hv = "detect_value_columns (header_columns fieldnames)"
  let ?cm = "fst (build_column_mapping d (header_columns fieldnames))"
  from load_outcome [where fs = fs and csv_path = csv_path, OF f, of d self]
  obtain ps L ev_rows where
    l: "load d self fs csv_path =
             (Inr ps, self\<lparr>logged_unexpected_values := L\<rparr>,
              [DetectedFormat (detect_tiktok_format (header_columns fieldnames)) ?hv]
                @ snd (build_column_mapping d (header_columns fieldnames))
                @ [BuiltColumnMapping (length ?cm)]
                @ ev_rows
                @ report_parse_errors (diagnostics d ?hv ?cm 2 rows)
                @ [Loaded (length (PredictionSet.predictions ps)) csv_path])"
    and p: "PredictionSet.predictions ps = collected d ?hv ?cm rows"
    and s: "surfaced_diagnostics ev_rows = []"
    by blast
  from l p show "map_sum id PredictionSet.predictions (fst (load d self fs csv_path))
          = Inr (collected d ?hv ?cm rows)"
    by simp
  from l s show "surfaced_diagnostics (snd (snd (load d self fs csv_path)))
          = take 5 (diagnostics d ?hv ?cm 2 rows)"
    by (simp add: surfaced_diagnostics_append surfaced_columns surfaced_report)
  from l show "diagnostics d ?hv ?cm 2 rows = []
            \<or> ParseErrors (length (diagnostics d ?hv ?cm 2 rows))
                \<in> set (snd (snd (load d self fs csv_path)))"
    by (simp add: report_parse_errors_def)
qed

theorem row_exception_recovered_witness:
  "row_outcome sample_deps False [] (sample_rows ! 1)
     = Inl (AttributeError (quoted ''NoneType'' @ '' object has no attribute '' @ quoted ''strip''))
   \<and> (collected sample_deps False [] ([sample_rows ! 0] @ sample_rows ! 1 # [sample_rows ! 2])
          = collected sample_deps False [] [sample_rows ! 0]
              @ collected sample_deps False [] [sample_rows ! 2]
        \<and> diagnostics sample_deps False [] 2 ([sample_rows ! 0] @ sample_rows ! 1 # [sample_rows ! 2])
          = diagnostics sample_deps False [] 2 [sample_rows ! 0]
              @ diagnostic (2 + length [sample_rows ! 0])
                  (AttributeError
                     (quoted ''NoneType'' @ '' object has no attribute '' @ quoted ''strip''))
              # diagnostics sample_deps False [] (Suc (2 + length [sample_rows ! 0]))
                  [sample_rows ! 2])
   \<and> map video_id (collected sample_deps False [] sample_rows) = [''v1'', ''v3'']
   \<and> diagnostics sample_deps False [] 2 sample_rows
       = [''Row 3: '' @ quoted ''NoneType'' @ '' object has no attribute '' @ quoted ''strip'']
   \<and> surfaced_diagnostics (snd (snd (load sample_deps sample_self sample_fs ''preds.csv'')))
       = take 5 (diagnostics sample_deps
                   (detect_value_columns (header_columns (Some [''video_id'', ''Hedonism'', ''Face''])))
                   (fst (build_column_mapping sample_deps
                           (header_columns (Some [''video_id'', ''Hedonism'', ''Face''])))) 2
                   sample_rows)"
proof (intro conjI)
  show r: "row_outcome sample_deps False [] (sample_rows ! 1)
     = Inl (AttributeError (quoted ''NoneType'' @ '' object has no attribute '' @ quoted ''strip''))"
    by code_simp
  note A = row_exception_recovered [THEN conjunct2, THEN conjunct2, THEN conjunct2,
             THEN conjunct2, THEN conjunct1, THEN mp, OF r]
  from A [of "[sample_rows ! 0]" "[sample_rows ! 2]" 2]
  show "collected sample_deps False [] ([sample_rows ! 0] @ sample_rows ! 1 # [sample_rows ! 2])
          = collected sample_deps False [] [sample_rows ! 0]
              @ collected sample_deps False [] [sample_rows ! 2]"
    by (rule conjunct1)
  from A [of "[sample_rows ! 0]" "[sample_rows ! 2]" 2]
  show "diagnostics sample_deps False [] 2 ([sample_rows ! 0] @ sample_rows ! 1 # [sample_rows ! 2])
          = diagnostics sample_deps False [] 2 [sample_rows ! 0]
              @ diagnostic (2 + length [sample_rows ! 0])
                  (AttributeError
                     (quoted ''NoneType'' @ '' object has no attribute '' @ quoted ''strip''))
              # diagnostics sample_deps False [] (Suc (2 + length [sample_rows ! 0]))
                  [sample_rows ! 2]"
    by (rule conjunct2)
  show "map video_id (collected sample_deps False [] sample_rows) = [''v1'', ''v3'']"
    by code_simp
  show "diagnostics sample_deps False [] 2 sample_rows
       = [''Row 3: '' @ quoted ''NoneType'' @ '' object has no attribute '' @ quoted ''strip'']"
    by code_simp
next
  have f: "sample_fs ''preds.csv''
             = Some (CsvFile (Some [''video_id'', ''Hedonism'', ''Face'']) sample_rows)"
    by (simp add: sample_fs_def)
  from row_exception_recovered [where fs = sample_fs and csv_path = "''preds.csv''",
         THEN conjunct2, THEN conjunct2, THEN conjunct2, THEN conjunct2, THEN conjunct2,
         THEN mp, OF f, THEN conjunct2, THEN conjunct1]
  show "surfaced_diagnostics (snd (snd (load sample_deps sample_self sample_fs ''preds.csv'')))
       = take 5 (diagnostics sample_deps
                   (detect_value_columns (header_columns (Some [''video_id'', ''Hedonism'', ''Face''])))
                   (fst (build_column_mapping sample_deps
                           (header_columns (Some [''video_id'', ''Hedonism'', ''Face''])))) 2
                   sample_rows)" .
qed

section \<open>One record per row\<close>

lemma cell_strip_present:
  assumes "row k \<noteq> Some None"
  shows "cell_strip (row_get row k)
           = Inr (strip (case row k of None \<Rightarrow> [] | Some v \<Rightarrow> (case v of None \<Rightarrow> [] | Some s \<Rightarrow> s)))"
  using assms
  by (auto simp: cell_strip_def row_get_def split: option.splits)

lemma category_text_total:
  assumes "\<forall>k. row k \<noteq> Some None"
  shows "\<exists>v. category_text hv row cm c = Inr v"
  using assms
  by (simp add: category_text_def value_columns_text_def standard_text_def Let_def
        cell_strip_present split: option.splits)

lemma row_outcome_total:
  assumes "row_video_id d row = Some (Inr (Some vid))" and "vid \<noteq> []"
    and "\<forall>k. row k \<noteq> Some None" and "\<forall>v. \<exists>r. gt_convert_value d v = Inr r"
  shows "\<exists>p. row_outcome d hv cm row = Inr (Some p)
             \<and> row_video_id d row = Some (Inr (Some (video_id p)))"
proof -
  have "\<forall>c\<in>set (ANNOTATION_CATEGORIES d).
          \<exists>v r. category_text hv row cm c = Inr v \<and> gt_convert_value d v = Inr r"
    using category_text_total [OF assms(3)] assms(4) by blast
  from parse_row_total [OF assms(1,2) this, of False 0 "{}"] assms(1)
  show ?thesis by (auto simp: row_outcome_def)
qed

lemma collected_all:
  assumes "\<forall>row\<in>set rows. \<exists>p. row_outcome d hv cm row = Inr (Some p)
                             \<and> row_video_id d row = Some (Inr (Some (video_id p)))"
  shows "map (\<lambda>r. Inr (Some r)) (collected d hv cm rows) = map (row_outcome d hv cm) rows
         \<and> map (\<lambda>r. Some (Inr (Some (video_id r)))) (collected d hv cm rows)
             = map (row_video_id d) rows"
  using assms
proof (induction rows)
  case Nil
  show ?case by (simp add: collected_def)
next
  case (Cons row rows)
  from Cons.prems obtain p where p: "row_outcome d hv cm row = Inr (Some p)"
    and v: "row_video_id d row = Some (Inr (Some (video_id p)))"
    by auto
  from p have one: "collected d hv cm [row] = [p]"
    by (simp add: collected_def)
  from Cons.prems have "\<forall>row\<in>set rows. \<exists>p. row_outcome d hv cm row = Inr (Some p)
                             \<and> row_video_id d row = Some (Inr (Some (video_id p)))"
    by simp
  from Cons.IH [OF this] collected_append [of d hv cm "[row]" rows] one p v
  show ?case by simp
qed

text \<open>
Claim C3, as amended.  When every row of the file has an identifier that is
  recognised and not empty, no row has a missing cell (no line is shorter than the
  header) and the normalizer raises nothing, \<open>load\<close> returns one record per row, in the
  order of the rows: the records are the outcomes of the rows, and their identifiers
  are the identifiers of the rows.
\<close>

theorem one_record_per_row:
  "fs csv_path = Some (CsvFile fieldnames rows)
   \<and> (\<forall>row\<in>set rows. (\<exists>vid. row_video_id d row = Some (Inr (Some vid)) \<and> vid \<noteq> [])
                      \<and> (\<forall>k. row k \<noteq> Some None))
   \<and> (\<forall>v. \<exists>r. gt_convert_value d v = Inr r)
   \<longrightarrow> (\<exists>ps. fst (load d self fs csv_path) = Inr ps
          \<and> length (PredictionSet.predictions ps) = length rows
          \<and> map (\<lambda>r. Inr (Some r)) (PredictionSet.predictions ps)
              = map (row_outcome d (detect_value_columns (header_columns fieldnames))
                       (fst (build_column_mapping d (header_columns fieldnames)))) rows
          \<and> map (\<lambda>r. Some (Inr (Some (video_id r)))) (PredictionSet.predictions ps)
              = map (row_video_id d) rows)"
proof
  let ?hv = "detect_value_columns (header_columns fieldnames)"
  let ?cm = "fst (build_column_mapping d (header_columns fieldnames))"
  assume a: "fs csv_path = Some (CsvFile fieldnames rows)
   \<and> (\<forall>row\<in>set rows. (\<exists>vid. row_video_id d row = Some (Inr (Some vid)) \<and> vid \<noteq> [])
                      \<and> (\<forall>k. row k \<noteq> Some None))
   \<and> (\<forall>v. \<exists>r. gt_convert_value d v = Inr r)"
  then have f: "fs csv_path = Some (CsvFile fieldnames rows)"
    and g: "\<forall>v. \<exists>r. gt_convert_value d v = Inr r" by simp_all
  have "\<forall>row\<in>set rows. \<exists>p. row_outcome d ?hv ?cm row = Inr (Some p)
                             \<and> row_video_id d row = Some (Inr (Some (video_id p)))"
  proof
    fix row assume "row \<in> set rows"
    with a obtain vid where "row_video_id d row = Some (Inr (Some vid))" "vid \<noteq> []"
      and "\<forall>k. row k \<noteq> Some None" by blast
    from row_outcome_total [OF this g]
    show "\<exists>p. row_outcome d ?hv ?cm row = Inr (Some p)
              \<and> row_video_id d row = Some (Inr (Some (video_id p)))" .
  qed
  note c = collected_all [OF this]
  from load_outcome [where fs = fs and csv_path = csv_path, OF f, of d self]
  obtain ps where l: "fst (load d self fs csv_path) = Inr ps"
    and p: "PredictionSet.predictions ps = collected d ?hv ?cm rows"
    by force
  from c p have m: "map (\<lambda>r. Inr (Some r)) (PredictionSet.predictions ps)
              = map (row_outcome d ?hv ?cm) rows"
    and i: "map (\<lambda>r. Some (Inr (Some (video_id r)))) (PredictionSet.predictions ps)
              = map (row_video_id d) rows"
    by simp_all
  from m have "length (PredictionSet.predictions ps) = length rows"
    by (rule map_eq_imp_length_eq)
  with l m i show "\<exists>ps. fst (load d self fs csv_path) = Inr ps
          \<and> length (PredictionSet.predictions ps) = length rows
          \<and> map (\<lambda>r. Inr (Some r)) (PredictionSet.predictions ps)
              = map (row_outcome d ?hv ?cm) rows
          \<and> map (\<lambda>r. Some (Inr (Some (video_id r)))) (PredictionSet.predictions ps)
              = map (row_video_id d) rows"
    by blast
qed

text \<open>
The claim as stated fails on a line that is shorter than the header.  Every row of
  \<open>preds.csv\<close> has an identifier and a text under \<open>Hedonism\<close>; the second has no
  \<open>Face\<close> cell, \<open>None.strip()\<close> raises, and the row is dropped: three rows, two records.
\<close>

theorem short_row_counterexample:
  "sample_fs ''preds.csv''
     = Some (CsvFile (Some [''video_id'', ''Hedonism'', ''Face'']) sample_rows)
   \<and> length sample_rows = 3
   \<and> row_video_id sample_deps (sample_rows ! 0) = Some (Inr (Some ''v1''))
   \<and> row_video_id sample_deps (sample_rows ! 1) = Some (Inr (Some ''v2''))
   \<and> row_video_id sample_deps (sample_rows ! 2) = Some (Inr (Some ''v3''))
   \<and> category_text False (sample_rows ! 0) [] ''Hedonism'' = Inr ''present''
   \<and> category_text False (sample_rows ! 1) [] ''Hedonism'' = Inr ''bogus''
   \<and> category_text False (sample_rows ! 2) [] ''Hedonism'' = Inr ''bogus''
   \<and> map video_id (PredictionSet.predictions
        (projr (fst (load sample_deps sample_self sample_fs ''preds.csv'')))) = [''v1'', ''v3'']"
proof (intro conjI)
  show "sample_fs ''preds.csv''
     = Some (CsvFile (Some [''video_id'', ''Hedonism'', ''Face'']) sample_rows)"
    by (simp add: sample_fs_def)
  show "length sample_rows = 3" by (simp add: sample_rows_def)
  show "row_video_id sample_deps (sample_rows ! 0) = Some (Inr (Some ''v1''))" by code_simp
  show "row_video_id sample_deps (sample_rows ! 1) = Some (Inr (Some ''v2''))" by code_simp
  show "row_video_id sample_deps (sample_rows ! 2) = Some (Inr (Some ''v3''))" by code_simp
  show "category_text False (sample_rows ! 0) [] ''Hedonism'' = Inr ''present''" by code_simp
  show "category_text False (sample_rows ! 1) [] ''Hedonism'' = Inr ''bogus''" by code_simp
  show "category_text False (sample_rows ! 2) [] ''Hedonism'' = Inr ''bogus''" by code_simp
  show "map video_id (PredictionSet.predictions
        (projr (fst (load sample_deps sample_self sample_fs ''preds.csv'')))) = [''v1'', ''v3'']"
    by code_simp
qed

theorem one_record_per_row_witness:
  "(\<exists>ps. fst (load sample_deps sample_self sample_fs ''full.csv'') = Inr ps
          \<and> length (PredictionSet.predictions ps) = length full_rows
          \<and> map (\<lambda>r. Inr (Some r)) (PredictionSet.predictions ps)
              = map (row_outcome sample_deps
                       (detect_value_columns (header_columns (Some [''video_id'', ''Hedonism'', ''Face''])))
                       (fst (build_column_mapping sample_deps
                               (header_columns (Some [''video_id'', ''Hedonism'', ''Face''])))))
                    full_rows
          \<and> map (\<lambda>r. Some (Inr (Some (video_id r)))) (PredictionSet.predictions ps)
              = map (row_video_id sample_deps) full_rows)
   \<and> map video_id (PredictionSet.predictions
        (projr (fst (load sample_deps sample_self sample_fs ''full.csv'')))) = [''v1'', ''v2'']"
proof (intro conjI)
  have f: "sample_fs ''full.csv''
             = Some (CsvFile (Some [''video_id'', ''Hedonism'', ''Face'']) full_rows)"
    by (simp add: sample_fs_def)
  have i0: "row_video_id sample_deps (full_rows ! 0) = Some (Inr (Some ''v1''))" by code_simp
  have i1: "row_video_id sample_deps (full_rows ! 1) = Some (Inr (Some ''v2''))" by code_simp
  have s: "set full_rows = {full_rows ! 0, full_rows ! 1}"
    by (simp add: full_rows_def)
  have ids: "\<forall>row\<in>set full_rows. \<exists>vid. row_video_id sample_deps row = Some (Inr (Some vid)) \<and> vid \<noteq> []"
    unfolding s using i0 i1 by simp
  have cells: "\<forall>row\<in>set full_rows. \<forall>k. row k \<noteq> Some None"
    by (simp add: full_rows_def)
  have g: "\<forall>v. \<exists>r. gt_convert_value sample_deps v = Inr r"
    by (simp add: sample_deps_def sample_normalizer_def)
  from f ids cells g
  have h: "sample_fs ''full.csv''
             = Some (CsvFile (Some [''video_id'', ''Hedonism'', ''Face'']) full_rows)
   \<and> (\<forall>row\<in>set full_rows.
         (\<exists>vid. row_video_id sample_deps row = Some (Inr (Some vid)) \<and> vid \<noteq> [])
         \<and> (\<forall>k. row k \<noteq> Some None))
   \<and> (\<forall>v. \<exists>r. gt_convert_value sample_deps v = Inr r)"
    by blast
  show "\<exists>ps. fst (load sample_deps sample_self sample_fs ''full.csv'') = Inr ps
          \<and> length (PredictionSet.predictions ps) = length full_rows
          \<and> map (\<lambda>r. Inr (Some r)) (PredictionSet.predictions ps)
              = map (row_outcome sample_deps
                       (detect_value_columns (header_columns (Some [''video_id'', ''Hedonism'', ''Face''])))
                       (fst (build_column_mapping sample_deps
                               (header_columns (Some [''video_id'', ''Hedonism'', ''Face''])))))
                    full_rows
          \<and> map (\<lambda>r. Some (Inr (Some (video_id r)))) (PredictionSet.predictions ps)
              = map (row_video_id sample_deps) full_rows"
    by (rule one_record_per_row [where fs = sample_fs and csv_path = "''full.csv''",
               THEN mp, OF h])
  show "map video_id (PredictionSet.predictions
        (projr (fst (load sample_deps sample_self sample_fs ''full.csv'')))) = [''v1'', ''v2'']"
    by code_simp
qed

section \<open>White space around a cell\<close>

lemma strip_idem: "strip (strip s) = strip s"
proof -
  define t where "t = dropWhile isspace s"
  define u where "u = rev (dropWhile isspace (rev t))"
  have ht: "t \<noteq> [] \<Longrightarrow> \<not> isspace (hd t)"
    unfolding t_def by (rule hd_dropWhile)
  have split: "t = u @ rev (takeWhile isspace (rev t))"
  proof -
    have "rev (takeWhile isspace (rev t) @ dropWhile isspace (rev t)) = t"
      by (simp only: takeWhile_dropWhile_id rev_rev_ident)
    then have "u @ rev (takeWhile isspace (rev t)) = t"
      by (simp only: rev_append u_def)
    then show ?thesis by (rule sym)
  qed
  have front: "dropWhile isspace u = u"
  proof (cases u)
    case Nil
    then show ?thesis by simp
  next
    case (Cons x xs)
    with split have "t \<noteq> []" and "hd t = x"
      by (metis Nil_is_append_conv list.distinct(1), metis hd_append2 list.distinct(1) list.sel(1))
    with ht have "\<not> isspace x" by simp
    with Cons show ?thesis by simp
  qed
  have rear: "rev (dropWhile isspace (rev u)) = u"
    unfolding u_def by simp
  have "strip s = u"
    by (simp only: strip_def t_def u_def)
  moreover have "strip u = u"
    by (simp only: strip_def front rear)
  ultimately show ?thesis by simp
qed

lemma cell_cong:
  assumes "map_option strip v1 = map_option strip v2"
  shows "cell_strip v1 = cell_strip v2"
  using assms by (cases v1; cases v2) (simp_all add: cell_strip_def)

lemma cell_strip_cong:
  assumes "map_option (map_option strip) (r1 k) = map_option (map_option strip) (r2 k)"
  shows "cell_strip (row_get r1 k) = cell_strip (row_get r2 k)"
  using assms by (cases "r1 k"; cases "r2 k") (auto simp: row_get_def intro: cell_cong)

lemma present_cong:
  assumes "map_option (map_option strip) (r1 k) = map_option (map_option strip) (r2 k)"
  shows "(r1 k = None) = (r2 k = None)"
  using assms by (cases "r1 k"; cases "r2 k") simp_all

lemma category_text_cong:
  assumes "\<forall>k. map_option (map_option strip) (r1 k) = map_option (map_option strip) (r2 k)"
  shows "category_text hv r1 cm c = category_text hv r2 cm c"
proof -
  have a: "cell_strip (row_get r1 k) = cell_strip (row_get r2 k)" for k
    by (rule cell_strip_cong) (simp add: assms)
  have b: "(r1 k = None) = (r2 k = None)" for k
    by (rule present_cong) (simp add: assms)
  show ?thesis
    unfolding category_text_def value_columns_text_def standard_text_def a b by (rule refl)
qed

lemma row_video_id_cong:
  assumes "\<forall>k. map_option (map_option strip) (r1 k) = map_option (map_option strip) (r2 k)"
    and "r1 (Some ''filename'') = r2 (Some ''filename'')"
    and "r1 (Some ''1_Link1'') = r2 (Some ''1_Link1'')"
  shows "row_video_id d r1 = row_video_id d r2"
proof -
  have v: "map_option (map_option strip) (r1 (Some ''video_id''))
           = map_option (map_option strip) (r2 (Some ''video_id''))"
    by (simp add: assms(1))
  have w: "(case r1 (Some ''video_id'') of
                Some v \<Rightarrow> Some (case cell_strip v of Inl e \<Rightarrow> Inl e | Inr s \<Rightarrow> Inr (Some s))
              | None \<Rightarrow> None)
           = (case r2 (Some ''video_id'') of
                Some v \<Rightarrow> Some (case cell_strip v of Inl e \<Rightarrow> Inl e | Inr s \<Rightarrow> Inr (Some s))
              | None \<Rightarrow> None)"
    using v by (cases "r1 (Some ''video_id'')"; cases "r2 (Some ''video_id'')")
      (auto dest: cell_cong)
  show ?thesis
    unfolding row_video_id_def assms(2) assms(3) w by (rule refl)
qed

text \<open>
Claim C9.  Two rows whose cells are equal after trimming, and whose \<open>filename\<close> and
  \<open>1_Link1\<close> cells are equal, are parsed alike: the same record or exception, the same
  logged values, the same logger calls, in either layout.  Replacing one cell by a text
  with the same trimming changes the text read for no category, and trimming a text
  that is trimmed already changes nothing.  In the witness \<open>present\<close> with and without
  surrounding blanks gives the same code.
\<close>

theorem trimming_invariant:
  "((\<forall>k. map_option (map_option strip) (r1 k) = map_option (map_option strip) (r2 k))
      \<and> r1 (Some ''filename'') = r2 (Some ''filename'')
      \<and> r1 (Some ''1_Link1'') = r2 (Some ''1_Link1'') \<longrightarrow>
      parse_row d r1 t hv cm n L = parse_row d r2 t hv cm n L)
   \<and> (strip s1 = strip s2 \<longrightarrow>
        category_text hv (row(k \<mapsto> Some s1)) cm c = category_text hv (row(k \<mapsto> Some s2)) cm c)
   \<and> cell_strip (Some (strip s)) = cell_strip (Some s)"
proof (intro conjI impI)
  assume a: "(\<forall>k. map_option (map_option strip) (r1 k) = map_option (map_option strip) (r2 k))
      \<and> r1 (Some ''filename'') = r2 (Some ''filename'')
      \<and> r1 (Some ''1_Link1'') = r2 (Some ''1_Link1'')"
  then have i: "row_video_id d r1 = row_video_id d r2"
    using row_video_id_cong [of r1 r2 d] by blast
  from a have "\<And>c. category_text hv r1 cm c = category_text hv r2 cm c"
    using category_text_cong [of r1 r2 hv cm] by blast
  then have e: "category_text hv r1 cm = category_text hv r2 cm"
    by (rule ext)
  show "parse_row d r1 t hv cm n L = parse_row d r2 t hv cm n L"
    unfolding parse_row_def i e by (rule refl)
next
  assume "strip s1 = strip s2"
  then have "\<forall>j. map_option (map_option strip) ((row(k \<mapsto> Some s1)) j)
               = map_option (map_option strip) ((row(k \<mapsto> Some s2)) j)"
    by simp
  then show "category_text hv (row(k \<mapsto> Some s1)) cm c
               = category_text hv (row(k \<mapsto> Some s2)) cm c"
    by (rule category_text_cong)
next
  show "cell_strip (Some (strip s)) = cell_strip (Some s)"
    by (simp add: cell_strip_def strip_idem)
qed

theorem trimming_invariant_witness:
  "parse_row sample_deps padded_row False False [] 2 {}
     = parse_row sample_deps row_with_video_id False False [] 2 {}
   \<and> map_of (PredictionResult.predictions
         (the (projr (fst (parse_row sample_deps padded_row False False [] 2 {}))))) ''Face''
       = Some 1
   \<and> category_text False (Map.empty(Some ''Face'' \<mapsto> Some '' present '')) [] ''Face''
       = category_text False (Map.empty(Some ''Face'' \<mapsto> Some ''present'')) [] ''Face''
   \<and> category_text False (Map.empty(Some ''Face'' \<mapsto> Some ''present'')) [] ''Face''
       = Inr ''present''"
proof (intro conjI)
  have s1: "strip '' vid '' = ''vid''" "strip ''vid'' = ''vid''"
    "strip '' present  '' = ''present''" "strip ''present'' = ''present''"
    "strip '' present '' = ''present''"
    by code_simp+
  have a: "(\<forall>k. map_option (map_option strip) (padded_row k)
                = map_option (map_option strip) (row_with_video_id k))
      \<and> padded_row (Some ''filename'') = row_with_video_id (Some ''filename'')
      \<and> padded_row (Some ''1_Link1'') = row_with_video_id (Some ''1_Link1'')"
    by (simp add: padded_row_def row_with_video_id_def s1)
  show "parse_row sample_deps padded_row False False [] 2 {}
     = parse_row sample_deps row_with_video_id False False [] 2 {}"
    by (rule trimming_invariant [where ?r1.0 = padded_row and ?r2.0 = row_with_video_id,
               THEN conjunct1, THEN mp, OF a])
  show "map_of (PredictionResult.predictions
         (the (projr (fst (parse_row sample_deps padded_row False False [] 2 {}))))) ''Face''
       = Some 1"
    by code_simp
  have b: "strip '' present '' = strip ''present''"
    by (simp add: s1)
  show "category_text False (Map.empty(Some ''Face'' \<mapsto> Some '' present '')) [] ''Face''
       = category_text False (Map.empty(Some ''Face'' \<mapsto> Some ''present'')) [] ''Face''"
    by (rule trimming_invariant [THEN conjunct2, THEN conjunct1, THEN mp, OF b])
  show "category_text False (Map.empty(Some ''Face'' \<mapsto> Some ''present'')) [] ''Face''
       = Inr ''present''"
    by code_simp
qed

section \<open>The column resolver\<close>

lemma register_columns_keeps:
  assumes "map_of m k \<noteq> None"
  shows "map_of (register_columns cols m) k \<noteq> None"
  using assms
  by (induction cols arbitrary: m) (simp_all add: update_conv')

lemma register_columns_origin:
  assumes "map_of (register_columns cols m) k = Some col"
  shows "map_of m k = Some col
         \<or> (col \<in> set cols \<and> is_value_column col \<and> lower (category_part col) = k)"
  using assms
proof (induction cols arbitrary: m)
  case Nil
  then show ?case by simp
next
  case (Cons c cols)
  let ?m = "if is_value_column c then AList.update (lower (category_part c)) c m else m"
  from Cons.prems have "map_of (register_columns cols ?m) k = Some col" by simp
  from Cons.IH [OF this] show ?case
    by (auto simp: update_conv' split: if_splits)
qed

lemma register_columns_finds:
  assumes "col \<in> set cols" and "is_value_column col"
  shows "map_of (register_columns cols m) (lower (category_part col)) \<noteq> None"
  using assms
proof (induction cols arbitrary: m)
  case Nil
  then show ?case by simp
next
  case (Cons c cols)
  show ?case
  proof (cases "col = c")
    case True
    with Cons.prems(2)
    have "map_of (AList.update (lower (category_part c)) c m) (lower (category_part col)) \<noteq> None"
      by (simp add: update_conv')
    from register_columns_keeps [OF this, of cols] True Cons.prems(2) show ?thesis
      by simp
  next
    case False
    with Cons.prems have "col \<in> set cols" by simp
    from Cons.IH [OF this Cons.prems(2)] show ?thesis by simp
  qed
qed

lemma report_category_mismatch:
  assumes "c \<in> set cats" and "''1_Value1_'' @ c @ ''_values'' \<notin> set columns"
    and "map_of cm (lower c) = Some actual"
  shows "ColumnCaseMismatch c (''1_Value1_'' @ c @ ''_values'') actual
           \<in> set (concat (map (report_category columns cm) cats))"
proof -
  from assms(2,3)
  have "report_category columns cm c
          = [ColumnCaseMismatch c (''1_Value1_'' @ c @ ''_values'') actual]"
    by (simp add: report_category_def)
  with assms(1) show ?thesis by force
qed

lemma fallback_column_read:
  assumes "(find_csv_col c = None \<and> row None = None)
           \<or> (\<exists>exact. find_csv_col c = Some exact \<and> row (Some exact) = None)"
    and "map_of cm (lower c) = Some actual"
  shows "category_text True row cm c = cell_strip (row_get row (Some actual))"
  using assms
  by (auto simp: category_text_def value_columns_text_def Let_def row_get_def cell_strip_def
        strip_def)

lemma power_dominance_facts:
  "find_csv_col ''Power_Dominance'' = Some ''1_Value1_Power_dominance_values''"
  "lower ''Power_Dominance'' = ''power_dominance''"
  "is_value_column ''1_Value1_Power_dominance_values''"
  "lower (category_part ''1_Value1_Power_dominance_values'') = ''power_dominance''"
  "is_value_column ''1_Value1_Power_Dominance_values''"
  "lower (category_part ''1_Value1_Power_Dominance_values'') = ''power_dominance''"
  by code_simp+

text \<open>
Claim C7.  Every value of the column map is a header of the file as it was read,
  a header of the form \<open>1_Value1_<token>_values\<close> whose token lower-cased is the key.
  A header whose token matches a category up to case puts an entry under that
  category.  When the header \<open>1_Value1_<category>_values\<close> itself is absent and the map
  has an entry for the category, \<open>Column case mismatch\<close> is logged with the header found,
  and a row that lacks the column of \<open>COLUMN_MAPPING\<close> is read through the header
  found.  In particular, in a file with the header \<open>1_Value1_Power_dominance_values\<close>
  and no other case variant of it, \<open>Power_Dominance\<close> resolves to that header, the
  mismatch is logged, and the rows are read under it.
\<close>

theorem case_insensitive_column:
  "(map_of (fst (build_column_mapping d columns)) k = Some col \<longrightarrow>
      col \<in> set columns \<and> is_value_column col \<and> lower (category_part col) = k)
   \<and> (col \<in> set columns \<and> is_value_column col \<and> lower (category_part col) = lower c \<longrightarrow>
        (\<exists>actual. map_of (fst (build_column_mapping d columns)) (lower c) = Some actual))
   \<and> (c \<in> set (ANNOTATION_CATEGORIES d) \<and> ''1_Value1_'' @ c @ ''_values'' \<notin> set columns
        \<and> map_of (fst (build_column_mapping d columns)) (lower c) = Some actual \<longrightarrow>
        ColumnCaseMismatch c (''1_Value1_'' @ c @ ''_values'') actual
          \<in> set (snd (build_column_mapping d columns)))
   \<and> (((find_csv_col c = None \<and> row None = None)
         \<or> (\<exists>exact. find_csv_col c = Some exact \<and> row (Some exact) = None))
        \<and> map_of cm (lower c) = Some actual \<longrightarrow>
        category_text True row cm c = cell_strip (row_get row (Some actual)))
   \<and> (''Power_Dominance'' \<in> set (ANNOTATION_CATEGORIES d)
        \<and> ''1_Value1_Power_dominance_values'' \<in> set columns
        \<and> (\<forall>col\<in>set columns.
              is_value_column col \<and> lower (category_part col) = ''power_dominance'' \<longrightarrow>
              col = ''1_Value1_Power_dominance_values'') \<longrightarrow>
        map_of (fst (build_column_mapping d columns)) (lower ''Power_Dominance'')
          = Some ''1_Value1_Power_dominance_values''
        \<and> ColumnCaseMismatch ''Power_Dominance'' ''1_Value1_Power_Dominance_values''
             ''1_Value1_Power_dominance_values''
            \<in> set (snd (build_column_mapping d columns)))
   \<and> (row (Some ''1_Value1_Power_dominance_values'') \<noteq> None \<longrightarrow>
        category_text True row cm ''Power_Dominance''
          = cell_strip (row_get row (Some ''1_Value1_Power_dominance_values'')))"
proof (intro conjI impI)
  assume "map_of (fst (build_column_mapping d columns)) k = Some col"
  then have "map_of (register_columns columns []) k = Some col"
    by (simp add: build_column_mapping_def Let_def)
  from register_columns_origin [OF this]
  show "col \<in> set columns" and "is_value_column col" and "lower (category_part col) = k"
    by simp_all
next
  assume a: "col \<in> set columns \<and> is_value_column col \<and> lower (category_part col) = lower c"
  then have "map_of (register_columns columns []) (lower (category_part col)) \<noteq> None"
    using register_columns_finds [of col columns "[]"] by simp
  with a show "\<exists>actual. map_of (fst (build_column_mapping d columns)) (lower c) = Some actual"
    by (auto simp: build_column_mapping_def Let_def)
next
  assume "c \<in> set (ANNOTATION_CATEGORIES d) \<and> ''1_Value1_'' @ c @ ''_values'' \<notin> set columns
        \<and> map_of (fst (build_column_mapping d columns)) (lower c) = Some actual"
  then have "c \<in> set (ANNOTATION_CATEGORIES d)"
    and "''1_Value1_'' @ c @ ''_values'' \<notin> set columns"
    and "map_of (register_columns columns []) (lower c) = Some actual"
    by (simp_all add: build_column_mapping_def Let_def)
  from report_category_mismatch [OF this]
  show "ColumnCaseMismatch c (''1_Value1_'' @ c @ ''_values'') actual
          \<in> set (snd (build_column_mapping d columns))"
    by (simp add: build_column_mapping_def Let_def)
next
  assume "((find_csv_col c = None \<and> row None = None)
         \<or> (\<exists>exact. find_csv_col c = Some exact \<and> row (Some exact) = None))
        \<and> map_of cm (lower c) = Some actual"
  then show "category_text True row cm c = cell_strip (row_get row (Some actual))"
    using fallback_column_read [of c row cm actual] by blast
next
  let ?H = "''1_Value1_Power_dominance_values''"
  let ?E = "''1_Value1_Power_Dominance_values''"
  assume a: "''Power_Dominance'' \<in> set (ANNOTATION_CATEGORIES d)
        \<and> ?H \<in> set columns
        \<and> (\<forall>col\<in>set columns.
              is_value_column col \<and> lower (category_part col) = ''power_dominance'' \<longrightarrow>
              col = ?H)"
  then have hin: "?H \<in> set columns" and cat: "''Power_Dominance'' \<in> set (ANNOTATION_CATEGORIES d)"
    and only: "\<And>col. col \<in> set columns \<Longrightarrow> is_value_column col
                 \<Longrightarrow> lower (category_part col) = ''power_dominance'' \<Longrightarrow> col = ?H"
    by simp_all
  from register_columns_finds [OF hin power_dominance_facts(3), of "[]"]
  obtain actual where m: "map_of (register_columns columns []) ''power_dominance'' = Some actual"
    by (auto simp: power_dominance_facts(4))
  from register_columns_origin [OF m] have "actual = ?H"
    using only by auto
  with m have r: "map_of (register_columns columns []) ''power_dominance'' = Some ?H"
    by simp
  then show res: "map_of (fst (build_column_mapping d columns)) (lower ''Power_Dominance'')
          = Some ?H"
    by (simp add: build_column_mapping_def Let_def power_dominance_facts(2))
  have "?E \<notin> set columns"
  proof
    assume "?E \<in> set columns"
    from only [OF this power_dominance_facts(5) power_dominance_facts(6)]
    show False by simp
  qed
  then have e: "''1_Value1_'' @ ''Power_Dominance'' @ ''_values'' \<notin> set columns"
    by simp
  from r have r': "map_of (register_columns columns []) (lower ''Power_Dominance'') = Some ?H"
    by (simp add: power_dominance_facts(2))
  from report_category_mismatch [OF cat e r']
  show "ColumnCaseMismatch ''Power_Dominance'' ?E ?H \<in> set (snd (build_column_mapping d columns))"
    by (simp add: build_column_mapping_def Let_def)
next
  assume "row (Some ''1_Value1_Power_dominance_values'') \<noteq> None"
  then show "category_text True row cm ''Power_Dominance''
          = cell_strip (row_get row (Some ''1_Value1_Power_dominance_values''))"
    by (auto simp: category_text_def value_columns_text_def Let_def power_dominance_facts(1)
          split: sum.splits)
qed

theorem case_insensitive_column_witness:
  "(''1_Value1_hedonism_values'' \<in> set variant_columns
      \<and> is_value_column ''1_Value1_hedonism_values''
      \<and> lower (category_part ''1_Value1_hedonism_values'') = ''hedonism'')
   \<and> (\<exists>actual. map_of (fst (build_column_mapping sample_deps variant_columns))
                     (lower ''Hedonism'') = Some actual)
   \<and> ColumnCaseMismatch ''Hedonism'' (''1_Value1_'' @ ''Hedonism'' @ ''_values'')
         ''1_Value1_hedonism_values''
        \<in> set (snd (build_column_mapping sample_deps variant_columns))
   \<and> category_text True variant_row (fst (build_column_mapping sample_deps variant_columns))
         ''Hedonism''
       = cell_strip (row_get variant_row (Some ''1_Value1_hedonism_values''))
   \<and> cell_strip (row_get variant_row (Some ''1_Value1_hedonism_values'')) = Inr ''present''
   \<and> (map_of (fst (build_column_mapping sample_deps variant_columns)) (lower ''Power_Dominance'')
          = Some ''1_Value1_Power_dominance_values''
        \<and> ColumnCaseMismatch ''Power_Dominance'' ''1_Value1_Power_Dominance_values''
             ''1_Value1_Power_dominance_values''
            \<in> set (snd (build_column_mapping sample_deps variant_columns)))
   \<and> category_text True variant_row [] ''Power_Dominance''
       = cell_strip (row_get variant_row (Some ''1_Value1_Power_dominance_values''))"
proof (intro conjI)
  have a: "map_of (fst (build_column_mapping sample_deps variant_columns)) ''hedonism''
             = Some ''1_Value1_hedonism_values''"
    by code_simp
  note A = case_insensitive_column [THEN conjunct1, THEN mp, OF a]
  from A show "''1_Value1_hedonism_values'' \<in> set variant_columns"
    by (rule conjunct1)
  from A show "is_value_column ''1_Value1_hedonism_values''"
    by (rule conjunct2 [THEN conjunct1])
  from A show "lower (category_part ''1_Value1_hedonism_values'') = ''hedonism''"
    by (rule conjunct2 [THEN conjunct2])
next
  have b: "''1_Value1_hedonism_values'' \<in> set variant_columns
           \<and> is_value_column ''1_Value1_hedonism_values''
           \<and> lower (category_part ''1_Value1_hedonism_values'') = lower ''Hedonism''"
    by code_simp
  show "\<exists>actual. map_of (fst (build_column_mapping sample_deps variant_columns))
                     (lower ''Hedonism'') = Some actual"
    by (rule case_insensitive_column [THEN conjunct2, THEN conjunct1, THEN mp, OF b])
next
  have c: "''Hedonism'' \<in> set (ANNOTATION_CATEGORIES sample_deps)
           \<and> ''1_Value1_'' @ ''Hedonism'' @ ''_values'' \<notin> set variant_columns
           \<and> map_of (fst (build_column_mapping sample_deps variant_columns)) (lower ''Hedonism'')
               = Some ''1_Value1_hedonism_values''"
    by code_simp
  show "ColumnCaseMismatch ''Hedonism'' (''1_Value1_'' @ ''Hedonism'' @ ''_values'')
         ''1_Value1_hedonism_values''
        \<in> set (snd (build_column_mapping sample_deps variant_columns))"
    by (rule case_insensitive_column [THEN conjunct2, THEN conjunct2, THEN conjunct1,
               THEN mp, OF c])
next
  have f: "find_csv_col ''Hedonism'' = Some ''1_Value1_Hedonism_values''"
    by code_simp
  have g: "variant_row (Some ''1_Value1_Hedonism_values'') = None"
    by code_simp
  have m: "map_of (fst (build_column_mapping sample_deps variant_columns)) (lower ''Hedonism'')
             = Some ''1_Value1_hedonism_values''"
    by code_simp
  from f g m
  have e: "((find_csv_col ''Hedonism'' = None \<and> variant_row None = None)
            \<or> (\<exists>exact. find_csv_col ''Hedonism'' = Some exact
                        \<and> variant_row (Some exact) = None))
           \<and> map_of (fst (build_column_mapping sample_deps variant_columns)) (lower ''Hedonism'')
               = Some ''1_Value1_hedonism_values''"
    by blast
  show "category_text True variant_row (fst (build_column_mapping sample_deps variant_columns))
         ''Hedonism''
       = cell_strip (row_get variant_row (Some ''1_Value1_hedonism_values''))"
    by (rule case_insensitive_column [where row = variant_row, THEN conjunct2, THEN conjunct2,
               THEN conjunct2, THEN conjunct1, THEN mp, OF e])
  show "cell_strip (row_get variant_row (Some ''1_Value1_hedonism_values'')) = Inr ''present''"
    by code_simp
next
  have h: "''Power_Dominance'' \<in> set (ANNOTATION_CATEGORIES sample_deps)
        \<and> ''1_Value1_Power_dominance_values'' \<in> set variant_columns
        \<and> (\<forall>col\<in>set variant_columns.
              is_value_column col \<and> lower (category_part col) = ''power_dominance'' \<longrightarrow>
              col = ''1_Value1_Power_dominance_values'')"
    by code_simp
  note H = case_insensitive_column [THEN conjunct2, THEN conjunct2, THEN conjunct2,
             THEN conjunct2, THEN conjunct1, THEN mp, OF h]
  from H show "map_of (fst (build_column_mapping sample_deps variant_columns))
                 (lower ''Power_Dominance'') = Some ''1_Value1_Power_dominance_values''"
    by (rule conjunct1)
  from H show "ColumnCaseMismatch ''Power_Dominance'' ''1_Value1_Power_Dominance_values''
             ''1_Value1_Power_dominance_values''
            \<in> set (snd (build_column_mapping sample_deps variant_columns))"
    by (rule conjunct2)
next
  have i: "variant_row (Some ''1_Value1_Power_dominance_values'') \<noteq> None"
    by (simp add: variant_row_def)
  show "category_text True variant_row [] ''Power_Dominance''
       = cell_strip (row_get variant_row (Some ''1_Value1_Power_dominance_values''))"
    by (rule case_insensitive_column [where row = variant_row, THEN conjunct2, THEN conjunct2,
               THEN conjunct2, THEN conjunct2, THEN conjunct2, THEN mp, OF i])
qed

end
